theory Spec2Isabelle
  imports
    Complex_Main
    "HOL-Library.Char_ord"
    "HOL-Library.List_Lexorder"
    "HOL-Library.Product_Lexorder"
    "HOL-Library.Multiset"
begin

section \<open>The store: tables of \<^verbatim>\<open>database.js\<close>\<close>

text \<open>
  The tables created by \<^verbatim>\<open>initDatabase\<close> are lists of rows, one record per table,
  with the columns the request handlers of \<^verbatim>\<open>server.js\<close> read or write. The field
  prefixes are the aliases the SQL of \<^verbatim>\<open>server.js\<close> gives the tables
  (\<^verbatim>\<open>s\<close>, \<^verbatim>\<open>sl\<close>, \<^verbatim>\<open>bs\<close>, ...). \<^verbatim>\<open>TEXT\<close> columns are strings,
  \<^verbatim>\<open>INTEGER\<close> columns are integers, a nullable column is an option. \<^verbatim>\<open>REAL\<close>
  columns (prices, amounts) are real numbers: the rounding of IEEE doubles is not modelled.
  Foreign keys are not enforced by the store (no \<^verbatim>\<open>PRAGMA foreign_keys\<close> is issued),
  so no table refers to another one in the model either.
\<close>

record seat =
  s_id :: string
  s_venue_id :: string
  s_row_label :: string
  s_seat_number :: int
  s_tier :: string

record event =
  e_id :: string
  e_venue_id :: string
  e_base_price :: real
  e_vip_price :: "real option"
  e_premium_price :: "real option"
  e_status :: string

record seat_lock =
  sl_id :: string
  sl_event_id :: string
  sl_seat_id :: string
  sl_session_id :: string
  sl_expires_at :: string

record booking =
  b_id :: string
  b_event_id :: string
  b_user_email :: string
  b_user_name :: string
  b_user_phone :: "string option"
  b_total_amount :: real
  b_status :: string
  b_qr_code :: "string option"

record booking_seat =
  bs_id :: string
  bs_booking_id :: string
  bs_seat_id :: string
  bs_price :: real

record payment =
  p_id :: string
  p_booking_id :: string
  p_amount :: real
  p_method :: string
  p_status :: string
  p_transaction_id :: "string option"

record db =
  seats :: "seat list"
  events :: "event list"
  seat_locks :: "seat_lock list"
  bookings :: "booking list"
  booking_seats :: "booking_seat list"
  payments :: "payment list"

section \<open>Timestamps as the store compares them\<close>

text \<open>
  A clock reading is the number of milliseconds since 1970-01-01T00:00:00Z, as
  \<^verbatim>\<open>Date.now()\<close> returns it. The handlers never compare such numbers: the lock handler
  stores \<^verbatim>\<open>new Date(...).toISOString()\<close>, a text of the form
  \<^verbatim>\<open>YYYY-MM-DDTHH:mm:ss.sssZ\<close>, in the column \<^verbatim>\<open>expires_at\<close>, and the queries
  compare that column with the text \<^verbatim>\<open>datetime('now')\<close> of SQLite, which has the form
  \<^verbatim>\<open>YYYY-MM-DD HH:MM:SS\<close>. Two texts are compared byte by byte (the \<^verbatim>\<open>BINARY\<close>
  collation), which is the order on \<^typ>\<open>string\<close> used here: characters by their code,
  lists lexicographically. Both renderings are written out for clock readings from 1970 to
  the year 9999.
\<close>

definition digit :: "int \<Rightarrow> char" where
  "digit d = ''0123456789'' ! nat (d mod 10)"

definition pad2 :: "int \<Rightarrow> string" where
  "pad2 n = [digit (n div 10), digit n]"

definition pad3 :: "int \<Rightarrow> string" where
  "pad3 n = [digit (n div 100), digit (n div 10), digit n]"

definition pad4 :: "int \<Rightarrow> string" where
  "pad4 n = [digit (n div 1000), digit (n div 100), digit (n div 10), digit n]"

text \<open>
  The Gregorian date (year, month, day) of a day number counted from 1970-01-01: the years
  are taken off first, then the months of the year that is left.
\<close>

definition leap :: "int \<Rightarrow> bool" where
  "leap y = (y mod 4 = 0 \<and> (y mod 400 = 0 \<or> y mod 100 \<noteq> 0))"

definition year_length :: "int \<Rightarrow> int" where
  "year_length y = (if leap y then 366 else 365)"

definition month_lengths :: "int \<Rightarrow> int list" where
  "month_lengths y = [31, if leap y then 29 else 28, 31, 30, 31, 30, 31, 31, 30, 31, 30, 31]"

function year_of :: "int \<Rightarrow> int \<Rightarrow> int \<times> int" where
  "year_of y days =
     (if days < year_length y then (y, days) else year_of (y + 1) (days - year_length y))"
  by pat_completeness auto
termination
  by (relation "measure (\<lambda>(y, days). nat days)") (auto simp: year_length_def split: if_splits)

fun month_of :: "int list \<Rightarrow> int \<Rightarrow> int \<Rightarrow> int \<times> int" where
  "month_of [] m days = (m, days)"
| "month_of (l # ls) m days = (if days < l then (m, days) else month_of ls (m + 1) (days - l))"

definition civil_from_days :: "int \<Rightarrow> int \<times> int \<times> int" where
  "civil_from_days days =
     (case year_of 1970 days of
        (y, doy) \<Rightarrow>
          (case month_of (month_lengths y) 1 doy of
             (m, day) \<Rightarrow> (y, m, day + 1)))"

definition ymd :: "int \<Rightarrow> string" where
  "ymd ms = (case civil_from_days (ms div 86400000) of
               (y, m, d) \<Rightarrow> pad4 y @ ''-'' @ pad2 m @ ''-'' @ pad2 d)"

definition hms :: "int \<Rightarrow> string" where
  "hms ms = pad2 (ms div 3600000 mod 24) @ '':'' @ pad2 (ms div 60000 mod 60) @ '':'' @
            pad2 (ms div 1000 mod 60)"

definition toISOString :: "int \<Rightarrow> string" where
  "toISOString ms = ymd ms @ ''T'' @ hms ms @ ''.'' @ pad3 (ms mod 1000) @ ''Z''"

definition datetime :: "int \<Rightarrow> string" where
  "datetime ms = ymd ms @ '' '' @ hms ms"

text \<open>\<^verbatim>\<open>Date.now().toString(36).toUpperCase()\<close>, for the transaction reference of a payment.\<close>

definition digit36 :: "int \<Rightarrow> char" where
  "digit36 d = ''0123456789ABCDEFGHIJKLMNOPQRSTUVWXYZ'' ! nat (d mod 36)"

function toString36 :: "int \<Rightarrow> string" where
  "toString36 n = (if n < 36 then [digit36 n] else toString36 (n div 36) @ [digit36 n])"
  by pat_completeness auto
termination
  by (relation "measure nat") auto

section \<open>Statements of \<^verbatim>\<open>database.js\<close> and \<^verbatim>\<open>server.js\<close>\<close>

text \<open>
  \<^verbatim>\<open>cleanExpiredLocks\<close>:
  \<^verbatim>\<open>DELETE FROM seat_locks WHERE expires_at < datetime('now')\<close>. Writing the database
  file (\<^verbatim>\<open>saveDatabase\<close>) does not change the tables and is left out everywhere.
\<close>

definition cleanExpiredLocks :: "int \<Rightarrow> db \<Rightarrow> db" where
  "cleanExpiredLocks now d =
     d\<lparr>seat_locks := filter (\<lambda>l. \<not> sl_expires_at l < datetime now) (seat_locks d)\<rparr>"

text \<open>
  \<^verbatim>\<open>selectQuery\<close> prepares the statement, binds the values and collects the rows; when
  that throws, it logs the error and returns the empty array. The statements of the
  handlers are fixed texts over the tables of \<^verbatim>\<open>initDatabase\<close>, so what makes one of
  them throw is the number of its \<^verbatim>\<open>?\<close>: SQLite refuses to prepare a statement with more
  than \<^verbatim>\<open>SQLITE_MAX_VARIABLE_NUMBER\<close> of them (32766 since SQLite 3.32; the build of
  \<^verbatim>\<open>sql.js\<close> is not part of the repository). \<open>selectQuery n rows\<close> is the answer for
  a statement with \<open>n\<close> bound values that selects \<open>rows\<close>. Only the statements with
  an \<^verbatim>\<open>IN (...)\<close> list over the requested ids can reach the limit; the others bind at most
  three values.
\<close>

definition SQLITE_MAX_VARIABLE_NUMBER :: int where
  "SQLITE_MAX_VARIABLE_NUMBER = 32766"

definition selectQuery :: "int \<Rightarrow> 'a list \<Rightarrow> 'a list" where
  "selectQuery n rows = (if SQLITE_MAX_VARIABLE_NUMBER < n then [] else rows)"

text \<open>\<^verbatim>\<open>a LEFT JOIN b ON on\<close>: every row of \<open>a\<close> with each matching row of \<open>b\<close>, or with
  \<^verbatim>\<open>NULL\<close> when none matches.\<close>

definition left_join :: "'a list \<Rightarrow> 'b list \<Rightarrow> ('a \<Rightarrow> 'b \<Rightarrow> bool) \<Rightarrow> ('a \<times> 'b option) list" where
  "left_join xs ys on =
     concat (map (\<lambda>x. case filter (on x) ys of
                          [] \<Rightarrow> [(x, None)]
                        | m # ms \<Rightarrow> map (\<lambda>y. (x, Some y)) (m # ms)) xs)"

definition not_null :: "'a option \<Rightarrow> bool" where
  "not_null v = (case v of None \<Rightarrow> False | Some _ \<Rightarrow> True)"

text \<open>\<^verbatim>\<open>SELECT id FROM bookings WHERE event_id = ? AND status = 'confirmed'\<close>\<close>

definition confirmed_bookings :: "string \<Rightarrow> db \<Rightarrow> string list" where
  "confirmed_bookings eventId d =
     map b_id (filter (\<lambda>b. b_event_id b = eventId \<and> b_status b = ''confirmed'') (bookings d))"

text \<open>\<^verbatim>\<open>DELETE FROM seat_locks WHERE event_id = ? AND session_id = ?\<close>, issued by the lock,
  release and booking handlers.\<close>

definition delete_session_locks :: "string \<Rightarrow> string \<Rightarrow> db \<Rightarrow> db" where
  "delete_session_locks eventId sessionId d =
     d\<lparr>seat_locks :=
         filter (\<lambda>l. \<not> (sl_event_id l = eventId \<and> sl_session_id l = sessionId)) (seat_locks d)\<rparr>"

text \<open>
  \<^verbatim>\<open>INSERT OR REPLACE INTO seat_locks\<close>: the rows that collide with the new one on the
  primary key \<^verbatim>\<open>id\<close> or on \<^verbatim>\<open>UNIQUE(event_id, seat_id)\<close> are deleted, then the row is
  inserted.
\<close>

definition insert_or_replace_lock :: "seat_lock \<Rightarrow> seat_lock list \<Rightarrow> seat_lock list" where
  "insert_or_replace_lock l t =
     filter (\<lambda>r. sl_id r \<noteq> sl_id l \<and>
                 \<not> (sl_event_id r = sl_event_id l \<and> sl_seat_id r = sl_seat_id l)) t @ [l]"

text \<open>
  A plain \<^verbatim>\<open>INSERT\<close> through \<^verbatim>\<open>runQuery\<close>: when the primary key is taken the statement
  throws, \<^verbatim>\<open>runQuery\<close> catches the error and the handler goes on with the table unchanged.
\<close>

definition insert_row :: "('a \<Rightarrow> string) \<Rightarrow> 'a \<Rightarrow> 'a list \<Rightarrow> 'a list" where
  "insert_row key r t = (if key r \<in> set (map key t) then t else t @ [r])"

section \<open>Responses\<close>

datatype error =
    ValidationError string
  | NotFound string
  | Conflict "(string \<times> string \<times> int \<times> string option) multiset"
  | LockExpired
  | AlreadyConfirmed
  | Declined
  | InternalFailure

fun http_status :: "error \<Rightarrow> nat" where
  "http_status (ValidationError _) = 400"
| "http_status (NotFound _) = 404"
| "http_status (Conflict _) = 409"
| "http_status LockExpired = 409"
| "http_status AlreadyConfirmed = 400"
| "http_status Declined = 402"
| "http_status InternalFailure = 500"

section \<open>\<^verbatim>\<open>POST /api/events/:eventId/seats/lock\<close>\<close>

definition LOCK_DURATION_MINUTES :: int where
  "LOCK_DURATION_MINUTES = 10"

definition locked_by_other :: "string \<Rightarrow> seat_lock option \<Rightarrow> bool" where
  "locked_by_other sessionId sl =
     (case sl of None \<Rightarrow> False | Some l \<Rightarrow> sl_session_id l \<noteq> sessionId)"

text \<open>
  The rows the statement behind \<^verbatim>\<open>unavailable\<close> selects: (id, row label, seat number,
  reason) of the seats among \<open>seatIds\<close> that are attached to a confirmed booking of the
  event, or carry a lock of the event with \<^verbatim>\<open>expires_at > datetime('now')\<close> and another
  session. They are listed here by a scan of the joined tables.
\<close>

definition unavailable_rows ::
  "int \<Rightarrow> string \<Rightarrow> string list \<Rightarrow> string \<Rightarrow> db \<Rightarrow> (string \<times> string \<times> int \<times> string option) list" where
  "unavailable_rows now eventId seatIds sessionId d =
     (let j1 = left_join (seats d) (booking_seats d)
                 (\<lambda>s bs. s_id s = bs_seat_id bs \<and>
                          bs_booking_id bs \<in> set (confirmed_bookings eventId d));
          j2 = left_join j1 (seat_locks d)
                 (\<lambda>(s, bs) sl. s_id s = sl_seat_id sl \<and> sl_event_id sl = eventId \<and>
                                datetime now < sl_expires_at sl);
          rows = filter (\<lambda>((s, bs), sl). s_id s \<in> set seatIds \<and>
                                         (not_null bs \<or> locked_by_other sessionId sl)) j2
      in map (\<lambda>((s, bs), sl).
                (s_id s, s_row_label s, s_seat_number s,
                 if not_null bs then Some ''booked''
                 else if locked_by_other sessionId sl then Some ''locked''
                 else None)) rows)"

text \<open>
  \<^verbatim>\<open>unavailable\<close>, the answer of \<^verbatim>\<open>selectQuery\<close> to that statement, which binds the
  session twice, the event twice and every requested id. The statement has no
  \<^verbatim>\<open>ORDER BY\<close>, so the answer is the multiset of the rows, in no particular order; it is
  empty also when the statement has thrown.
\<close>

definition unavailable_query ::
  "int \<Rightarrow> string \<Rightarrow> string list \<Rightarrow> string \<Rightarrow> db
     \<Rightarrow> (string \<times> string \<times> int \<times> string option) multiset" where
  "unavailable_query now eventId seatIds sessionId d =
     mset (selectQuery (int (length seatIds) + 4)
             (unavailable_rows now eventId seatIds sessionId d))"

text \<open>The loop over \<open>seatIds\<close>; \<open>uuid k\<close> is the value of the \<open>k\<close>-th call of
  \<^verbatim>\<open>uuidv4()\<close> in the request.\<close>

fun insert_locks ::
  "(nat \<Rightarrow> string) \<Rightarrow> nat \<Rightarrow> string \<Rightarrow> string \<Rightarrow> string \<Rightarrow> string list \<Rightarrow> seat_lock list
     \<Rightarrow> seat_lock list" where
  "insert_locks uuid k eventId sessionId expiresAt [] t = t"
| "insert_locks uuid k eventId sessionId expiresAt (seatId # rest) t =
     insert_locks uuid (Suc k) eventId sessionId expiresAt rest
       (insert_or_replace_lock
          \<lparr>sl_id = uuid k, sl_event_id = eventId, sl_seat_id = seatId,
           sl_session_id = sessionId, sl_expires_at = expiresAt\<rparr> t)"

text \<open>The handler returns \<^verbatim>\<open>{ expiresAt, lockedSeats }\<close> or an error, and the store.\<close>

definition lock_seats ::
  "int \<Rightarrow> (nat \<Rightarrow> string) \<Rightarrow> string \<Rightarrow> string list \<Rightarrow> string \<Rightarrow> db
     \<Rightarrow> (error + string \<times> nat) \<times> db" where
  "lock_seats now uuid eventId seatIds sessionId d =
     (if seatIds = [] then (Inl (ValidationError ''No seats specified''), d)
      else if sessionId = [] then (Inl (ValidationError ''Session ID required''), d)
      else
        let d1 = cleanExpiredLocks now d;
            unavailable = unavailable_query now eventId seatIds sessionId d1
        in if 0 < size unavailable then (Inl (Conflict unavailable), d1)
           else
             let d2 = delete_session_locks eventId sessionId d1;
                 expiresAt = toISOString (now + LOCK_DURATION_MINUTES * 60 * 1000)
             in (Inr (expiresAt, length seatIds),
                 d2\<lparr>seat_locks :=
                      insert_locks uuid 0 eventId sessionId expiresAt seatIds (seat_locks d2)\<rparr>))"

section \<open>\<^verbatim>\<open>POST /api/events/:eventId/seats/release\<close>\<close>

definition release_seats :: "string \<Rightarrow> string \<Rightarrow> db \<Rightarrow> db" where
  "release_seats eventId sessionId d = delete_session_locks eventId sessionId d"

section \<open>\<^verbatim>\<open>GET /api/events/:eventId/seats\<close>\<close>

text \<open>
  One row of the answer: the seat, its \<^verbatim>\<open>status\<close>, and \<^verbatim>\<open>locked_by\<close> and
  \<^verbatim>\<open>lock_expires\<close> of the joined lock. The join with \<^verbatim>\<open>seat_locks\<close> has no test on
  \<^verbatim>\<open>expires_at\<close>: the handler relies on \<^verbatim>\<open>cleanExpiredLocks\<close> having run.
\<close>

record seat_view =
  v_seat :: seat
  v_status :: string
  v_locked_by :: "string option"
  v_lock_expires :: "string option"

definition seats_query :: "string \<Rightarrow> string \<Rightarrow> db \<Rightarrow> seat_view list" where
  "seats_query eventId venueId d =
     (let j1 = left_join (seats d) (booking_seats d)
                 (\<lambda>s bs. s_id s = bs_seat_id bs \<and>
                          bs_booking_id bs \<in> set (confirmed_bookings eventId d));
          j2 = left_join j1 (seat_locks d)
                 (\<lambda>(s, bs) sl. s_id s = sl_seat_id sl \<and> sl_event_id sl = eventId);
          rows = filter (\<lambda>((s, bs), sl). s_venue_id s = venueId) j2;
          ordered = sort_key (\<lambda>((s, bs), sl). (s_row_label s, s_seat_number s)) rows
      in map (\<lambda>((s, bs), sl).
                \<lparr>v_seat = s,
                 v_status = (if not_null bs then ''booked''
                             else if not_null sl then ''locked'' else ''available''),
                 v_locked_by = map_option sl_session_id sl,
                 v_lock_expires = map_option sl_expires_at sl\<rparr>) ordered)"

text \<open>
  \<^verbatim>\<open>seatsByRow\<close>: the loop that pushes every row of the answer to the array kept under
  its row label, creating the array at the first row of the label. The object is a list
  of (label, rows) in the order the labels are met, which is the order of its keys for
  labels such as A to T (labels that are array indices or name a property of
  \<^verbatim>\<open>Object.prototype\<close> are not modelled).
\<close>

definition push_row :: "seat_view \<Rightarrow> (string \<times> seat_view list) list \<Rightarrow> (string \<times> seat_view list) list" where
  "push_row v acc =
     (if s_row_label (v_seat v) \<in> set (map fst acc)
      then map (\<lambda>(label, vs). if label = s_row_label (v_seat v) then (label, vs @ [v])
                               else (label, vs)) acc
      else acc @ [(s_row_label (v_seat v), [v])])"

definition seatsByRow :: "seat_view list \<Rightarrow> (string \<times> seat_view list) list" where
  "seatsByRow vs = foldl (\<lambda>acc v. push_row v acc) [] vs"

definition get_seats ::
  "int \<Rightarrow> string \<Rightarrow> db
     \<Rightarrow> (error + seat_view list \<times> (string \<times> seat_view list) list) \<times> db" where
  "get_seats now eventId d =
     (case find (\<lambda>e. e_id e = eventId) (events d) of
        None \<Rightarrow> (Inl (NotFound ''Event not found''), d)
      | Some ev \<Rightarrow>
          let d1 = cleanExpiredLocks now d;
              vs = seats_query eventId (e_venue_id ev) d1
          in (Inr (vs, seatsByRow vs), d1))"

section \<open>\<^verbatim>\<open>POST /api/bookings\<close>\<close>

text \<open>\<^verbatim>\<open>a || b\<close> on a nullable number: \<open>b\<close> when \<open>a\<close> is \<^verbatim>\<open>null\<close> or \<open>0\<close>.\<close>

definition js_or :: "real option \<Rightarrow> real \<Rightarrow> real" where
  "js_or a b = (case a of None \<Rightarrow> b | Some v \<Rightarrow> if v = 0 then b else v)"

definition seat_price :: "event \<Rightarrow> seat \<Rightarrow> real" where
  "seat_price ev s =
     (let price = e_base_price ev;
          price = (if s_tier s = ''vip'' then js_or (e_vip_price ev) (e_base_price ev * 2)
                   else price);
          price = (if s_tier s = ''premium''
                   then js_or (e_premium_price ev) (e_base_price ev * (3 / 2))
                   else price)
      in price)"

text \<open>The loop over \<^verbatim>\<open>seatPrices\<close>; the booking has taken \<open>uuid 0\<close>, the rows of
  \<^verbatim>\<open>booking_seats\<close> take the following ones.\<close>

fun insert_booking_seats ::
  "(nat \<Rightarrow> string) \<Rightarrow> nat \<Rightarrow> string \<Rightarrow> (string \<times> real) list \<Rightarrow> booking_seat list
     \<Rightarrow> booking_seat list" where
  "insert_booking_seats uuid k bookingId [] t = t"
| "insert_booking_seats uuid k bookingId ((seatId, price) # rest) t =
     insert_booking_seats uuid (Suc k) bookingId rest
       (insert_row bs_id
          \<lparr>bs_id = uuid k, bs_booking_id = bookingId, bs_seat_id = seatId, bs_price = price\<rparr> t)"

text \<open>\<^verbatim>\<open>locks\<close>, the answer of \<^verbatim>\<open>selectQuery\<close> to
  \<^verbatim>\<open>SELECT seat_id FROM seat_locks WHERE event_id = ? AND session_id = ? AND seat_id IN
  (...) AND expires_at > datetime('now')\<close>; the handler reads its length only.\<close>

definition session_locks :: "int \<Rightarrow> string \<Rightarrow> string list \<Rightarrow> string \<Rightarrow> db \<Rightarrow> string list" where
  "session_locks now eventId seatIds sessionId d =
     selectQuery (int (length seatIds) + 2)
       (map sl_seat_id
          (filter (\<lambda>l. sl_event_id l = eventId \<and> sl_session_id l = sessionId \<and>
                        sl_seat_id l \<in> set seatIds \<and> datetime now < sl_expires_at l)
             (seat_locks d)))"

text \<open>
  The handler returns \<^verbatim>\<open>{ bookingId, totalAmount, seats }\<close> or an error, and the store.
  An empty \<open>seatIds\<close> is an array, hence not rejected by the test of the required fields.
\<close>

definition create_booking ::
  "int \<Rightarrow> (nat \<Rightarrow> string) \<Rightarrow> string \<Rightarrow> string list \<Rightarrow> string \<Rightarrow> string \<Rightarrow> string
     \<Rightarrow> string option \<Rightarrow> db \<Rightarrow> (error + string \<times> real \<times> nat) \<times> db" where
  "create_booking now uuid eventId seatIds sessionId userEmail userName userPhone d =
     (if eventId = [] \<or> sessionId = [] \<or> userEmail = [] \<or> userName = []
      then (Inl (ValidationError ''Missing required fields''), d)
      else if length (session_locks now eventId seatIds sessionId d) \<noteq> length seatIds
      then (Inl LockExpired, d)
      else
        case find (\<lambda>e. e_id e = eventId) (events d) of
          None \<Rightarrow> (Inl (NotFound ''Event not found''), d)
        | Some ev \<Rightarrow>
            let found = selectQuery (int (length seatIds))
                          (filter (\<lambda>s. s_id s \<in> set seatIds) (seats d));
                seatPrices = map (\<lambda>s. (s_id s, seat_price ev s)) found;
                totalAmount = foldl (\<lambda>t (seatId, price). t + price) 0 seatPrices;
                bookingId = uuid 0;
                d1 = d\<lparr>bookings := insert_row b_id
                        \<lparr>b_id = bookingId, b_event_id = eventId, b_user_email = userEmail,
                         b_user_name = userName,
                         b_user_phone = (if userPhone = Some [] then None else userPhone),
                         b_total_amount = totalAmount, b_status = ''pending'',
                         b_qr_code = None\<rparr> (bookings d)\<rparr>;
                d2 = d1\<lparr>booking_seats :=
                         insert_booking_seats uuid 1 bookingId seatPrices (booking_seats d1)\<rparr>;
                d3 = delete_session_locks eventId sessionId d2
            in (Inr (bookingId, totalAmount, length found), d3))"

section \<open>\<^verbatim>\<open>POST /api/payments\<close>\<close>

text \<open>
  \<open>r\<close> is the value of \<^verbatim>\<open>Math.random()\<close> in the request: the payment is declined when
  \<open>r < 0.1\<close>. \<open>qr\<close> is the outcome of \<^verbatim>\<open>await QRCode.toDataURL(...)\<close>, \<open>None\<close> when the
  promise is rejected: the handler then answers 500 from its \<^verbatim>\<open>catch\<close>, after the payment
  row has been written. The handler returns
  \<^verbatim>\<open>{ paymentId, transactionId, qrCode }\<close> or an error, and the store.
\<close>

definition process_payment ::
  "int \<Rightarrow> real \<Rightarrow> string option \<Rightarrow> (nat \<Rightarrow> string) \<Rightarrow> string \<Rightarrow> string \<Rightarrow> db
     \<Rightarrow> (error + string \<times> string \<times> string) \<times> db" where
  "process_payment now r qr uuid bookingId method d =
     (if bookingId = [] \<or> method = []
      then (Inl (ValidationError ''Missing required fields''), d)
      else
        case find (\<lambda>b. b_id b = bookingId) (bookings d) of
          None \<Rightarrow> (Inl (NotFound ''Booking not found''), d)
        | Some bk \<Rightarrow>
            if b_status bk = ''confirmed'' then (Inl AlreadyConfirmed, d)
            else if r < 1 / 10 then (Inl Declined, d)
            else
              let paymentId = uuid 0;
                  transactionId = ''TXN'' @ toString36 now;
                  d1 = d\<lparr>payments := insert_row p_id
                          \<lparr>p_id = paymentId, p_booking_id = bookingId,
                           p_amount = b_total_amount bk, p_method = method,
                           p_status = ''completed'',
                           p_transaction_id = Some transactionId\<rparr> (payments d)\<rparr>
              in case qr of
                   None \<Rightarrow> (Inl InternalFailure, d1)
                 | Some qrCode \<Rightarrow>
                     (Inr (paymentId, transactionId, qrCode),
                      d1\<lparr>bookings :=
                           map (\<lambda>b. if b_id b = bookingId
                                     then b\<lparr>b_status := ''confirmed'', b_qr_code := Some qrCode\<rparr>
                                     else b) (bookings d1)\<rparr>))"

section \<open>Notions of the specification\<close>

definition attached :: "string \<Rightarrow> string \<Rightarrow> db \<Rightarrow> bool" where
  "attached eventId seatId d =
     list_ex (\<lambda>bs. bs_seat_id bs = seatId \<and>
                list_ex (\<lambda>b. b_id b = bs_booking_id bs \<and> b_event_id b = eventId \<and>
                               b_status b = ''confirmed'') (bookings d))
       (booking_seats d)"

definition foreign_lock :: "int \<Rightarrow> string \<Rightarrow> string \<Rightarrow> string \<Rightarrow> db \<Rightarrow> bool" where
  "foreign_lock now eventId seatId sessionId d =
     list_ex (\<lambda>l. sl_event_id l = eventId \<and> sl_seat_id l = seatId \<and>
                   sl_session_id l \<noteq> sessionId \<and> datetime now < sl_expires_at l)
       (seat_locks d)"

definition locks_unique :: "db \<Rightarrow> bool" where
  "locks_unique d = distinct (map (\<lambda>l. (sl_event_id l, sl_seat_id l)) (seat_locks d))"

text \<open>A lock row of the session on the seat that passes the test
  \<^verbatim>\<open>expires_at > datetime('now')\<close> of the lock and booking handlers, live or not.\<close>

definition held :: "int \<Rightarrow> string \<Rightarrow> string \<Rightarrow> string \<Rightarrow> db \<Rightarrow> bool" where
  "held now eventId seatId sessionId d =
     list_ex (\<lambda>l. sl_event_id l = eventId \<and> sl_seat_id l = seatId \<and>
                   sl_session_id l = sessionId \<and> datetime now < sl_expires_at l)
       (seat_locks d)"

text \<open>A lock row of the session on the seat, whatever its expiry.\<close>

definition owned_lock :: "string \<Rightarrow> string \<Rightarrow> string \<Rightarrow> db \<Rightarrow> bool" where
  "owned_lock eventId seatId sessionId d =
     list_ex (\<lambda>l. sl_event_id l = eventId \<and> sl_seat_id l = seatId \<and>
                   sl_session_id l = sessionId)
       (seat_locks d)"

text \<open>
  A live lock of the session on the seat: a lock row whose \<^verbatim>\<open>expires_at\<close> is the
  rendering of a clock reading that \<open>now\<close> has not reached (a reading before the year
  9994, the range in which the order of the rendered dates is proved below).
\<close>

definition live_lock :: "int \<Rightarrow> string \<Rightarrow> string \<Rightarrow> string \<Rightarrow> db \<Rightarrow> bool" where
  "live_lock now eventId seatId sessionId d =
     (\<exists>l \<in> set (seat_locks d). \<exists>expiry.
        sl_event_id l = eventId \<and> sl_seat_id l = seatId \<and> sl_session_id l = sessionId \<and>
        sl_expires_at l = toISOString expiry \<and> now < expiry \<and> expiry < 253234080000000)"

text \<open>The stores the handlers and the reaper can produce from a store without locks.\<close>

inductive reachable :: "db \<Rightarrow> bool" where
  start: "seat_locks d = [] \<Longrightarrow> reachable d"
| reaper: "reachable d \<Longrightarrow> reachable (cleanExpiredLocks now d)"
| acquire: "reachable d \<Longrightarrow> reachable (snd (lock_seats now uuid eventId seatIds sessionId d))"
| release: "reachable d \<Longrightarrow> reachable (release_seats eventId sessionId d)"
| project: "reachable d \<Longrightarrow> reachable (snd (get_seats now eventId d))"
| book: "reachable d \<Longrightarrow>
     reachable (snd (create_booking now uuid eventId seatIds sessionId userEmail userName userPhone d))"
| settle: "reachable d \<Longrightarrow> reachable (snd (process_payment now r qr uuid bookingId method d))"

text \<open>
  The price of a seat in the words of the specification:
  \<^verbatim>\<open>tier == vip ? vipPrice ?? basePrice*2 : tier == premium ? premiumPrice ?? basePrice*1.5
  : basePrice\<close>.
\<close>

definition spec_price :: "event \<Rightarrow> seat \<Rightarrow> real" where
  "spec_price ev s =
     (if s_tier s = ''vip''
      then (case e_vip_price ev of Some p \<Rightarrow> p | None \<Rightarrow> e_base_price ev * 2)
      else if s_tier s = ''premium''
      then (case e_premium_price ev of Some p \<Rightarrow> p | None \<Rightarrow> e_base_price ev * (3 / 2))
      else e_base_price ev)"

section \<open>A small store for the scenarios\<close>

text \<open>
  Seats of one venue with the tiers \<^verbatim>\<open>seedDatabase\<close> gives their rows, the seeded event
  ``Rock Symphony Night'', an event without tier prices and an event whose VIP seats
  are free. \<open>uuids p\<close> stands for the
  values of \<^verbatim>\<open>uuidv4()\<close> in one request. The clock reading \<open>t0\<close> is
  2026-11-02T12:00:00Z.
\<close>

definition uuids :: "string \<Rightarrow> nat \<Rightarrow> string" where
  "uuids p k = p @ ''-'' @ pad4 (int k)"

definition t0 :: int where
  "t0 = 1793620800000"

definition venue_seats :: "seat list" where
  "venue_seats =
     [\<lparr>s_id = ''A1'', s_venue_id = ''V1'', s_row_label = ''A'', s_seat_number = 1, s_tier = ''vip''\<rparr>,
      \<lparr>s_id = ''A2'', s_venue_id = ''V1'', s_row_label = ''A'', s_seat_number = 2, s_tier = ''vip''\<rparr>,
      \<lparr>s_id = ''B1'', s_venue_id = ''V1'', s_row_label = ''B'', s_seat_number = 1, s_tier = ''vip''\<rparr>,
      \<lparr>s_id = ''C1'', s_venue_id = ''V1'', s_row_label = ''C'', s_seat_number = 1,
       s_tier = ''premium''\<rparr>,
      \<lparr>s_id = ''F1'', s_venue_id = ''V1'', s_row_label = ''F'', s_seat_number = 1,
       s_tier = ''standard''\<rparr>]"

definition rock_night :: event where
  "rock_night = \<lparr>e_id = ''E1'', e_venue_id = ''V1'', e_base_price = 75, e_vip_price = Some 200,
                  e_premium_price = Some 125, e_status = ''active''\<rparr>"

definition plain_event :: event where
  "plain_event = \<lparr>e_id = ''E2'', e_venue_id = ''V1'', e_base_price = 50, e_vip_price = None,
                   e_premium_price = None, e_status = ''active''\<rparr>"

definition free_vip_event :: event where
  "free_vip_event = \<lparr>e_id = ''E3'', e_venue_id = ''V1'', e_base_price = 50, e_vip_price = Some 0,
                      e_premium_price = Some 40, e_status = ''active''\<rparr>"

definition store0 :: db where
  "store0 = \<lparr>seats = venue_seats, events = [rock_night, plain_event, free_vip_event],
              seat_locks = [],
              bookings = [], booking_seats = [], payments = []\<rparr>"

text \<open>The store after session X has locked A1 and A2 at \<open>t0\<close>.\<close>

definition store_locked :: db where
  "store_locked = store0\<lparr>seat_locks :=
     [\<lparr>sl_id = ''lx-0000'', sl_event_id = ''E1'', sl_seat_id = ''A1'', sl_session_id = ''X'',
       sl_expires_at = ''2026-11-02T12:10:00.000Z''\<rparr>,
      \<lparr>sl_id = ''lx-0001'', sl_event_id = ''E1'', sl_seat_id = ''A2'', sl_session_id = ''X'',
       sl_expires_at = ''2026-11-02T12:10:00.000Z''\<rparr>]\<rparr>"

text \<open>The store after session X has locked B1 at \<open>t0\<close> and booked it one minute later.\<close>

definition store_pending :: db where
  "store_pending = store0\<lparr>
     bookings := [\<lparr>b_id = ''bx-0000'', b_event_id = ''E1'', b_user_email = ''x@example.org'',
                   b_user_name = ''X'', b_user_phone = None, b_total_amount = 200,
                   b_status = ''pending'', b_qr_code = None\<rparr>],
     booking_seats := [\<lparr>bs_id = ''bx-0001'', bs_booking_id = ''bx-0000'', bs_seat_id = ''B1'',
                        bs_price = 200\<rparr>]\<rparr>"

text \<open>The store after session W has locked C1, booked it and paid: the booking is
  confirmed.\<close>

definition store_sold :: db where
  "store_sold = store0\<lparr>
     bookings := [\<lparr>b_id = ''bw-0000'', b_event_id = ''E1'', b_user_email = ''w@example.org'',
                   b_user_name = ''W'', b_user_phone = None, b_total_amount = 125,
                   b_status = ''confirmed'', b_qr_code = Some ''qr''\<rparr>],
     booking_seats := [\<lparr>bs_id = ''bw-0001'', bs_booking_id = ''bw-0000'', bs_seat_id = ''C1'',
                        bs_price = 125\<rparr>],
     payments := [\<lparr>p_id = ''pw-0000'', p_booking_id = ''bw-0000'', p_amount = 125,
                   p_method = ''card'', p_status = ''completed'',
                   p_transaction_id = Some ''TXNMVZ7JL8W''\<rparr>]\<rparr>"

text \<open>Then session Z has locked and booked B1 without paying, and session X has locked A1
  and A2.\<close>

definition store_busy :: db where
  "store_busy = store_sold\<lparr>
     seat_locks :=
       [\<lparr>sl_id = ''lx-0000'', sl_event_id = ''E1'', sl_seat_id = ''A1'', sl_session_id = ''X'',
         sl_expires_at = ''2026-11-02T12:11:40.000Z''\<rparr>,
        \<lparr>sl_id = ''lx-0001'', sl_event_id = ''E1'', sl_seat_id = ''A2'', sl_session_id = ''X'',
         sl_expires_at = ''2026-11-02T12:11:40.000Z''\<rparr>],
     bookings := bookings store_sold @
       [\<lparr>b_id = ''bz-0000'', b_event_id = ''E1'', b_user_email = ''z@example.org'',
         b_user_name = ''Z'', b_user_phone = None, b_total_amount = 200,
         b_status = ''pending'', b_qr_code = None\<rparr>],
     booking_seats := booking_seats store_sold @
       [\<lparr>bs_id = ''bz-0001'', bs_booking_id = ''bz-0000'', bs_seat_id = ''B1'',
         bs_price = 200\<rparr>]\<rparr>"

text \<open>The store after session P has locked A1, C1 and F1 for the event without tier prices.\<close>

definition store_plain :: db where
  "store_plain = store0\<lparr>seat_locks :=
     [\<lparr>sl_id = ''lp-0000'', sl_event_id = ''E2'', sl_seat_id = ''A1'', sl_session_id = ''P'',
       sl_expires_at = ''2026-11-02T12:10:00.000Z''\<rparr>,
      \<lparr>sl_id = ''lp-0001'', sl_event_id = ''E2'', sl_seat_id = ''C1'', sl_session_id = ''P'',
       sl_expires_at = ''2026-11-02T12:10:00.000Z''\<rparr>,
      \<lparr>sl_id = ''lp-0002'', sl_event_id = ''E2'', sl_seat_id = ''F1'', sl_session_id = ''P'',
       sl_expires_at = ''2026-11-02T12:10:00.000Z''\<rparr>]\<rparr>"

text \<open>The store after session G has locked Z9, an id that is no row of \<^verbatim>\<open>seats\<close>, at
  \<open>t0\<close>.\<close>

definition store_ghost :: db where
  "store_ghost = store0\<lparr>seat_locks :=
     [\<lparr>sl_id = ''lg-0000'', sl_event_id = ''E1'', sl_seat_id = ''Z9'', sl_session_id = ''G'',
       sl_expires_at = ''2026-11-02T12:10:00.000Z''\<rparr>]\<rparr>"

section \<open>Joins and the unavailable seats\<close>

lemma in_left_join:
  "(x, r) \<in> set (left_join xs ys on) \<longleftrightarrow>
     x \<in> set xs \<and> (case r of Some y \<Rightarrow> y \<in> set ys \<and> on x y | None \<Rightarrow> \<forall>y \<in> set ys. \<not> on x y)"
proof -
  have row: "(z, r) \<in> set (case filter (on x') ys of [] \<Rightarrow> [(x', None)]
                            | m # ms \<Rightarrow> map (\<lambda>y. (x', Some y)) (m # ms)) \<longleftrightarrow>
        z = x' \<and> (case r of Some y \<Rightarrow> y \<in> set ys \<and> on x' y | None \<Rightarrow> \<forall>y \<in> set ys. \<not> on x' y)"
    for x' z
  proof (cases "filter (on x') ys")
    case Nil
    then have "\<forall>y \<in> set ys. \<not> on x' y" by (simp add: filter_empty_conv)
    with Nil show ?thesis by (auto split: option.splits)
  next
    case (Cons m ms)
    have mem: "set (m # ms) = {y \<in> set ys. on x' y}"
      using Cons by (metis set_filter)
    then have "m \<in> set ys \<and> on x' m" by auto
    with Cons mem show ?thesis by (auto split: option.splits)
  qed
  show ?thesis
    unfolding left_join_def by (auto simp: row)
qed

lemma left_join_total:
  assumes "x \<in> set xs"
  shows "\<exists>r. (x, r) \<in> set (left_join xs ys on)"
proof (cases "\<exists>y \<in> set ys. on x y")
  case True
  then obtain y where "y \<in> set ys" "on x y" by blast
  with assms have "(x, Some y) \<in> set (left_join xs ys on)" by (simp add: in_left_join)
  then show ?thesis ..
next
  case False
  with assms have "(x, None) \<in> set (left_join xs ys on)" by (simp add: in_left_join)
  then show ?thesis ..
qed

lemma in_confirmed_bookings:
  "i \<in> set (confirmed_bookings e d) \<longleftrightarrow>
     (\<exists>b \<in> set (bookings d). b_id b = i \<and> b_event_id b = e \<and> b_status b = ''confirmed'')"
  by (auto simp: confirmed_bookings_def)

lemma attached_iff:
  "attached e x d \<longleftrightarrow>
     (\<exists>bs \<in> set (booking_seats d). x = bs_seat_id bs \<and> bs_booking_id bs \<in> set (confirmed_bookings e d))"
  by (auto simp: attached_def list_ex_iff in_confirmed_bookings)

lemma foreign_lock_iff:
  "foreign_lock now e x sess d \<longleftrightarrow>
     (\<exists>l \<in> set (seat_locks d). x = sl_seat_id l \<and> sl_event_id l = e \<and>
        datetime now < sl_expires_at l \<and> sl_session_id l \<noteq> sess)"
  by (auto simp: foreign_lock_def list_ex_iff)

text \<open>A row of the first join carries a booking seat exactly when the seat is attached.\<close>

lemma join_booking_seats:
  assumes "(s, bs) \<in> set (left_join (seats d) (booking_seats d)
             (\<lambda>s bs. s_id s = bs_seat_id bs \<and> bs_booking_id bs \<in> set (confirmed_bookings e d)))"
  shows "not_null bs \<longleftrightarrow> attached e (s_id s) d"
  using assms by (cases bs) (auto simp: in_left_join not_null_def attached_iff)

lemma in_unavailable:
  assumes "u \<in> set (unavailable_rows now e ids sess d)"
  shows "fst u \<in> set ids \<and> fst u \<in> s_id ` set (seats d) \<and>
         (attached e (fst u) d \<or> foreign_lock now e (fst u) sess d) \<and>
         snd (snd (snd u)) = Some (if attached e (fst u) d then ''booked'' else ''locked'')"
proof -
  let ?on1 = "\<lambda>s bs. s_id s = bs_seat_id bs \<and> bs_booking_id bs \<in> set (confirmed_bookings e d)"
  let ?on2 = "\<lambda>(s, bs) sl. s_id s = sl_seat_id sl \<and> sl_event_id sl = e \<and>
                 datetime now < sl_expires_at sl"
  let ?j1 = "left_join (seats d) (booking_seats d) ?on1"
  let ?j2 = "left_join ?j1 (seat_locks d) ?on2"
  from assms obtain s bs sl where
    row: "((s, bs), sl) \<in> set ?j2" and
    sel: "s_id s \<in> set ids" "not_null bs \<or> locked_by_other sess sl" and
    u: "u = (s_id s, s_row_label s, s_seat_number s,
             if not_null bs then Some ''booked''
             else if locked_by_other sess sl then Some ''locked'' else None)"
    unfolding unavailable_rows_def Let_def by auto
  from row have j1: "(s, bs) \<in> set ?j1"
    and lk: "case sl of Some l \<Rightarrow> l \<in> set (seat_locks d) \<and> ?on2 (s, bs) l | None \<Rightarrow> True"
    by (auto simp: in_left_join split: option.splits)
  from j1 have seat: "s \<in> set (seats d)" by (simp add: in_left_join)
  have bk: "not_null bs \<longleftrightarrow> attached e (s_id s) d" using j1 by (rule join_booking_seats)
  have fl: "locked_by_other sess sl \<Longrightarrow> foreign_lock now e (s_id s) sess d"
    using lk by (cases sl) (auto simp: locked_by_other_def foreign_lock_iff)
  from sel seat bk fl u show ?thesis by auto
qed

lemma unavailable_complete:
  assumes x: "x \<in> set ids" and s: "s \<in> set (seats d)" "s_id s = x"
    and blocked: "attached e x d \<or> foreign_lock now e x sess d"
  shows "\<exists>u \<in> set (unavailable_rows now e ids sess d). fst u = x"
proof -
  let ?on1 = "\<lambda>s bs. s_id s = bs_seat_id bs \<and> bs_booking_id bs \<in> set (confirmed_bookings e d)"
  let ?on2 = "\<lambda>(s, bs) sl. s_id s = sl_seat_id sl \<and> sl_event_id sl = e \<and>
                 datetime now < sl_expires_at sl"
  let ?j1 = "left_join (seats d) (booking_seats d) ?on1"
  let ?j2 = "left_join ?j1 (seat_locks d) ?on2"
  have "\<exists>bs sl. ((s, bs), sl) \<in> set ?j2 \<and> (not_null bs \<or> locked_by_other sess sl)"
  proof (cases "attached e x d")
    case True
    from s obtain bs where j1: "(s, bs) \<in> set ?j1" using left_join_total by fast
    with True s have nn: "not_null bs" by (simp add: join_booking_seats)
    from j1 obtain sl where "((s, bs), sl) \<in> set ?j2" using left_join_total by fast
    with nn show ?thesis by blast
  next
    case False
    with blocked have "foreign_lock now e x sess d" by simp
    then obtain l where l: "l \<in> set (seat_locks d)" "x = sl_seat_id l" "sl_event_id l = e"
      "datetime now < sl_expires_at l" "sl_session_id l \<noteq> sess"
      by (auto simp: foreign_lock_iff)
    from s obtain bs where j1: "(s, bs) \<in> set ?j1" using left_join_total by fast
    with l s have "((s, bs), Some l) \<in> set ?j2" by (simp add: in_left_join)
    moreover from l have "locked_by_other sess (Some l)" by (simp add: locked_by_other_def)
    ultimately show ?thesis by blast
  qed
  then obtain bs sl where "((s, bs), sl) \<in> set ?j2" "not_null bs \<or> locked_by_other sess sl"
    by blast
  with x s show ?thesis
    unfolding unavailable_rows_def Let_def by force
qed

lemma unavailable_ids:
  "fst ` set (unavailable_rows now e ids sess d) =
     {x \<in> set ids. x \<in> s_id ` set (seats d) \<and> (attached e x d \<or> foreign_lock now e x sess d)}"
proof (intro set_eqI iffI)
  fix x assume "x \<in> fst ` set (unavailable_rows now e ids sess d)"
  then show "x \<in> {x \<in> set ids. x \<in> s_id ` set (seats d) \<and>
                    (attached e x d \<or> foreign_lock now e x sess d)}"
    using in_unavailable by fastforce
next
  fix x assume "x \<in> {x \<in> set ids. x \<in> s_id ` set (seats d) \<and>
                    (attached e x d \<or> foreign_lock now e x sess d)}"
  then show "x \<in> fst ` set (unavailable_rows now e ids sess d)"
  proof -
    assume "x \<in> {x \<in> set ids. x \<in> s_id ` set (seats d) \<and>
                    (attached e x d \<or> foreign_lock now e x sess d)}"
    then obtain s where "x \<in> set ids" "s \<in> set (seats d)" "s_id s = x"
      "attached e x d \<or> foreign_lock now e x sess d" by auto
    then obtain u where "u \<in> set (unavailable_rows now e ids sess d)" "fst u = x"
      using unavailable_complete by blast
    then show ?thesis by force
  qed
qed

text \<open>What \<^verbatim>\<open>selectQuery\<close> makes of the rows.\<close>

lemma selectQuery_simps:
  "n \<le> SQLITE_MAX_VARIABLE_NUMBER \<Longrightarrow> selectQuery n rows = rows"
  "SQLITE_MAX_VARIABLE_NUMBER < n \<Longrightarrow> selectQuery n rows = []"
  by (simp_all add: selectQuery_def)

lemma set_selectQuery: "set (selectQuery n rows) \<subseteq> set rows"
  by (simp add: selectQuery_def)

lemma unavailable_query_answered:
  "int (length ids) + 4 \<le> SQLITE_MAX_VARIABLE_NUMBER \<Longrightarrow>
     unavailable_query now e ids sess d = mset (unavailable_rows now e ids sess d)"
  by (simp add: unavailable_query_def selectQuery_simps)

lemma unavailable_query_thrown:
  "SQLITE_MAX_VARIABLE_NUMBER < int (length ids) + 4 \<Longrightarrow>
     unavailable_query now e ids sess d = {#}"
  by (simp add: unavailable_query_def selectQuery_simps)

lemma set_unavailable_query:
  "set_mset (unavailable_query now e ids sess d) \<subseteq> set (unavailable_rows now e ids sess d)"
  using set_selectQuery [of "int (length ids) + 4" "unavailable_rows now e ids sess d"]
  by (simp add: unavailable_query_def)

section \<open>The order of the two renderings\<close>

declare year_of.simps [simp del]

lemma year_length_ge: "365 \<le> year_length y" "year_length y \<le> 366"
  by (simp_all add: year_length_def)

lemma year_of_result:
  "0 \<le> days \<Longrightarrow> year_of y days = (Y, r) \<Longrightarrow>
     y \<le> Y \<and> 0 \<le> r \<and> r < year_length Y \<and> Y \<le> y + days div 365"
proof (induction y days rule: year_of.induct)
  case (1 y days)
  show ?case
  proof (cases "days < year_length y")
    case True
    with "1.prems" have "Y = y" "r = days" by (simp_all add: year_of.simps [of y days])
    with True "1.prems"(1) show ?thesis by (simp add: pos_imp_zdiv_nonneg_iff)
  next
    case False
    with "1.prems" have rec: "year_of (y + 1) (days - year_length y) = (Y, r)"
      by (simp add: year_of.simps [of y days])
    from False year_length_ge [of y] have nn: "0 \<le> days - year_length y" by simp
    from "1.IH" [OF False nn rec]
    have ih: "y + 1 \<le> Y" "0 \<le> r" "r < year_length Y"
      "Y \<le> y + 1 + (days - year_length y) div 365" by simp_all
    have "(days - year_length y) div 365 \<le> (days - 365) div 365"
      using year_length_ge [of y] by (intro zdiv_mono1) simp_all
    also have "\<dots> = days div 365 - 1" by simp
    finally have "y + 1 + (days - year_length y) div 365 \<le> y + days div 365" by simp
    with ih show ?thesis by simp
  qed
qed

lemma year_of_mono:
  "0 \<le> a \<Longrightarrow> a \<le> b \<Longrightarrow> year_of y a = (Ya, ra) \<Longrightarrow> year_of y b = (Yb, rb) \<Longrightarrow>
     Ya < Yb \<or> (Ya = Yb \<and> rb - ra = b - a)"
proof (induction y a arbitrary: b rule: year_of.induct)
  case (1 y a)
  show ?case
  proof (cases "a < year_length y")
    case a: True
    with "1.prems" have Ya: "Ya = y" "ra = a" by (simp_all add: year_of.simps [of y a])
    show ?thesis
    proof (cases "b < year_length y")
      case True
      with "1.prems" have "Yb = y" "rb = b" by (simp_all add: year_of.simps [of y b])
      with Ya show ?thesis by simp
    next
      case False
      with "1.prems" have "year_of (y + 1) (b - year_length y) = (Yb, rb)"
        by (simp add: year_of.simps [of y b])
      moreover from False have "0 \<le> b - year_length y" by simp
      ultimately have "y + 1 \<le> Yb" using year_of_result by blast
      with Ya show ?thesis by simp
    qed
  next
    case False
    with "1.prems" have b: "\<not> b < year_length y" by simp
    from False "1.prems" have ra: "year_of (y + 1) (a - year_length y) = (Ya, ra)"
      by (simp add: year_of.simps [of y a])
    from b "1.prems" have rb: "year_of (y + 1) (b - year_length y) = (Yb, rb)"
      by (simp add: year_of.simps [of y b])
    from False year_length_ge [of y] have "0 \<le> a - year_length y" by simp
    moreover from "1.prems" have "a - year_length y \<le> b - year_length y" by simp
    ultimately have "Ya < Yb \<or> (Ya = Yb \<and> rb - ra = (b - year_length y) - (a - year_length y))"
      using ra rb by (rule "1.IH" [OF False])
    then show ?thesis by simp
  qed
qed

lemma month_of_ge: "month_of ls m r = (M, d) \<Longrightarrow> m \<le> M"
proof (induction ls arbitrary: m r)
  case Nil
  then show ?case by simp
next
  case (Cons l ls)
  show ?case
  proof (cases "r < l")
    case True
    with Cons.prems show ?thesis by simp
  next
    case False
    with Cons.prems have "month_of ls (m + 1) (r - l) = (M, d)" by simp
    from Cons.IH [OF this] show ?thesis by simp
  qed
qed

lemma month_of_result:
  "0 \<le> r \<Longrightarrow> r < sum_list ls \<Longrightarrow> \<forall>l \<in> set ls. l \<le> 31 \<Longrightarrow> month_of ls m r = (M, d) \<Longrightarrow>
     M < m + int (length ls) \<and> 0 \<le> d \<and> d < 31"
proof (induction ls arbitrary: m r)
  case Nil
  then show ?case by simp
next
  case (Cons l ls)
  show ?case
  proof (cases "r < l")
    case True
    with Cons.prems show ?thesis by auto
  next
    case False
    with Cons.prems have rec: "month_of ls (m + 1) (r - l) = (M, d)" by simp
    from False have 1: "0 \<le> r - l" by simp
    from Cons.prems have 2: "r - l < sum_list ls" by simp
    from Cons.prems have 3: "\<forall>l \<in> set ls. l \<le> 31" by simp
    from Cons.IH [OF 1 2 3 rec] show ?thesis by simp
  qed
qed

lemma month_of_mono:
  "a \<le> b \<Longrightarrow> month_of ls m a = (Ma, da) \<Longrightarrow> month_of ls m b = (Mb, db) \<Longrightarrow>
     Ma < Mb \<or> (Ma = Mb \<and> db - da = b - a)"
proof (induction ls arbitrary: m a b)
  case Nil
  then show ?case by simp
next
  case (Cons l ls)
  show ?case
  proof (cases "a < l")
    case a: True
    with Cons.prems have Ma: "Ma = m" "da = a" by simp_all
    show ?thesis
    proof (cases "b < l")
      case True
      with Cons.prems have "Mb = m" "db = b" by simp_all
      with Ma show ?thesis by simp
    next
      case False
      with Cons.prems have "month_of ls (m + 1) (b - l) = (Mb, db)" by simp
      then have "m + 1 \<le> Mb" by (rule month_of_ge)
      with Ma show ?thesis by simp
    qed
  next
    case False
    with Cons.prems have b: "\<not> b < l" by simp
    from False Cons.prems have ra: "month_of ls (m + 1) (a - l) = (Ma, da)" by simp
    from b Cons.prems have rb: "month_of ls (m + 1) (b - l) = (Mb, db)" by simp
    from Cons.prems have "a - l \<le> b - l" by simp
    from Cons.IH [OF this ra rb] show ?thesis by simp
  qed
qed

text \<open>Dates grow with the day number, and stay within the four, two and two digits.\<close>

lemma civil_from_days_mono:
  assumes "0 \<le> a" "a \<le> b"
    and "civil_from_days a = (ya, ma, da)" "civil_from_days b = (yb, mb, db)"
  shows "ya < yb \<or> (ya = yb \<and> (ma < mb \<or> (ma = mb \<and> db - da = b - a)))"
proof -
  obtain Ya ra where ya: "year_of 1970 a = (Ya, ra)" by (cases "year_of 1970 a")
  obtain Yb rb where yb: "year_of 1970 b = (Yb, rb)" by (cases "year_of 1970 b")
  obtain Ma ea where ma: "month_of (month_lengths Ya) 1 ra = (Ma, ea)"
    by (cases "month_of (month_lengths Ya) 1 ra")
  obtain Mb eb where mb: "month_of (month_lengths Yb) 1 rb = (Mb, eb)"
    by (cases "month_of (month_lengths Yb) 1 rb")
  from assms(3) ya ma have a: "ya = Ya" "ma = Ma" "da = ea + 1"
    by (simp_all add: civil_from_days_def)
  from assms(4) yb mb have b: "yb = Yb" "mb = Mb" "db = eb + 1"
    by (simp_all add: civil_from_days_def)
  from year_of_mono [OF assms(1,2) ya yb] show ?thesis
  proof
    assume "Ya < Yb" with a b show ?thesis by simp
  next
    assume same: "Ya = Yb \<and> rb - ra = b - a"
    with assms(2) have "ra \<le> rb" by simp
    from month_of_mono [OF this ma mb [folded same [THEN conjunct1]]] same a b
    show ?thesis by auto
  qed
qed

lemma sum_list_month_lengths: "sum_list (month_lengths y) = year_length y"
  by (simp add: month_lengths_def year_length_def)

lemma civil_from_days_bounds:
  assumes "0 \<le> days" "days < 2930950" "civil_from_days days = (y, m, d)"
  shows "1970 \<le> y \<and> y \<le> 9999 \<and> 1 \<le> m \<and> m \<le> 12 \<and> 1 \<le> d \<and> d \<le> 31"
proof -
  obtain Y r where y: "year_of 1970 days = (Y, r)" by (cases "year_of 1970 days")
  obtain M e where m: "month_of (month_lengths Y) 1 r = (M, e)"
    by (cases "month_of (month_lengths Y) 1 r")
  from assms(3) y m have eq: "y = Y" "m = M" "d = e + 1" by (simp_all add: civil_from_days_def)
  from year_of_result [OF assms(1) y]
  have Y: "1970 \<le> Y" "0 \<le> r" "r < year_length Y" "Y \<le> 1970 + days div 365" by simp_all
  from assms(2) have "days div 365 \<le> 8029" by simp
  with Y have Y9: "Y \<le> 9999" by simp
  have "\<forall>l \<in> set (month_lengths Y). l \<le> 31" by (simp add: month_lengths_def)
  with month_of_result [OF Y(2) _ _ m] Y(3)
  have "M < 1 + int (length (month_lengths Y))" "0 \<le> e" "e < 31"
    by (simp_all add: sum_list_month_lengths)
  moreover have "length (month_lengths Y) = 12" by (simp add: month_lengths_def)
  moreover from m have "1 \<le> M" by (rule month_of_ge)
  ultimately show ?thesis using Y(1) Y9 eq by simp
qed

lemma less_append_same_length:
  "length xs = length ys \<Longrightarrow> xs < ys \<Longrightarrow> xs @ us < ys @ vs" for xs ys :: string
  by (induction xs ys rule: list_induct2) auto

lemma less_append_prefix: "xs @ us < xs @ vs \<longleftrightarrow> us < vs" for xs :: string
  by (induction xs) simp_all

lemma of_char_digit:
  assumes "0 \<le> a" "a \<le> 9"
  shows "of_char (digit a) = (48 + nat a :: nat)"
proof -
  from assms have "a = 0 \<or> a = 1 \<or> a = 2 \<or> a = 3 \<or> a = 4 \<or> a = 5 \<or> a = 6 \<or> a = 7 \<or>
    a = 8 \<or> a = 9" by arith
  then show ?thesis by (elim disjE) (simp_all add: digit_def)
qed

lemma digit_less: "0 \<le> a \<Longrightarrow> a < b \<Longrightarrow> b \<le> 9 \<Longrightarrow> digit a < digit b"
  by (simp add: less_char_def of_char_digit)

lemma digit_mod: "digit (a mod 10) = digit a"
  by (simp add: digit_def)

lemma div_mod_digits:
  fixes a b c :: int
  assumes "0 < c" "a < b" "\<not> a div c < b div c"
  shows "a div c = b div c" "a mod c < b mod c"
proof -
  from assms(1,2) have "a div c \<le> b div c" by (intro zdiv_mono1) simp_all
  with assms(3) show eq: "a div c = b div c" by simp
  have "a mod c = a - c * (a div c)" "b mod c = b - c * (b div c)"
    by (simp_all add: minus_mult_div_eq_mod)
  with eq assms(2) show "a mod c < b mod c" by simp
qed

lemma pad2_mod: "pad2 (a mod 100) = pad2 a"
proof -
  have "a mod (10 * 10) = 10 * (a div 10 mod 10) + a mod 10"
    by (rule zmod_zmult2_eq) simp
  then have split: "a mod 100 = 10 * (a div 10 mod 10) + a mod 10" by simp
  have "(10 * (a div 10 mod 10) + a mod 10) div 10 = a div 10 mod 10" by simp
  with split have "a mod 100 div 10 = a div 10 mod 10" by simp
  then have "digit (a mod 100 div 10) = digit (a div 10 mod 10)" by simp
  then have 1: "digit (a mod 100 div 10) = digit (a div 10)" by (simp only: digit_mod)
  have "a mod 100 mod 10 = a mod 10" by (simp add: mod_mod_cancel)
  then have "digit (a mod 100 mod 10) = digit (a mod 10)" by simp
  then have 2: "digit (a mod 100) = digit a" by (simp only: digit_mod)
  from 1 2 show ?thesis by (simp add: pad2_def)
qed

lemma pad2_less:
  assumes "0 \<le> a" "a < b" "b \<le> 99"
  shows "pad2 a < pad2 b"
proof (cases "a div 10 < b div 10")
  case True
  moreover from assms have "0 \<le> a div 10" "b div 10 \<le> 9" by simp_all
  ultimately have "digit (a div 10) < digit (b div 10)" by (intro digit_less)
  then show ?thesis by (simp add: pad2_def)
next
  case False
  with assms(2) have eq: "a div 10 = b div 10" and lt: "a mod 10 < b mod 10"
    by (simp_all add: div_mod_digits)
  have "0 \<le> a mod 10" "b mod 10 \<le> 9" by simp_all
  with lt have "digit (a mod 10) < digit (b mod 10)" by (intro digit_less)
  then have "digit a < digit b" by (simp only: digit_mod)
  with eq show ?thesis by (simp add: pad2_def)
qed

lemma pad4_split: "pad4 a = pad2 (a div 100) @ pad2 a"
proof -
  have "a div (100 * 10) = a div 100 div 10" by (rule zdiv_zmult2_eq) simp
  then have "a div 100 div 10 = a div 1000" by simp
  then show ?thesis by (simp add: pad4_def pad2_def)
qed

lemma pad4_less:
  assumes "0 \<le> a" "a < b" "b \<le> 9999"
  shows "pad4 a < pad4 b"
proof (cases "a div 100 < b div 100")
  case True
  moreover from assms have "0 \<le> a div 100" "b div 100 \<le> 99" by simp_all
  ultimately have "pad2 (a div 100) < pad2 (b div 100)" by (intro pad2_less)
  moreover have "length (pad2 (a div 100)) = length (pad2 (b div 100))" by (simp add: pad2_def)
  ultimately show ?thesis unfolding pad4_split by (intro less_append_same_length)
next
  case False
  with assms(2) have eq: "a div 100 = b div 100" and lt: "a mod 100 < b mod 100"
    by (simp_all add: div_mod_digits)
  have "0 \<le> a mod 100" "b mod 100 \<le> 99" by simp_all
  with lt have "pad2 (a mod 100) < pad2 (b mod 100)" by (intro pad2_less)
  then have "pad2 a < pad2 b" by (simp only: pad2_mod)
  with eq show ?thesis unfolding pad4_split by (simp add: less_append_prefix)
qed

text \<open>The ten characters of the date grow with the day number.\<close>

lemma ymd_length: "length (ymd ms) = 10"
  by (simp add: ymd_def pad4_def pad2_def split: prod.splits)

lemma ymd_same_day: "a div 86400000 = b div 86400000 \<Longrightarrow> ymd a = ymd b"
  by (simp add: ymd_def)

lemma ymd_less:
  assumes "0 \<le> a" "a div 86400000 < b div 86400000" "b < 253234080000000"
  shows "ymd a < ymd b"
proof -
  let ?a = "a div 86400000" and ?b = "b div 86400000"
  obtain ya ma da where ca: "civil_from_days ?a = (ya, ma, da)"
    by (cases "civil_from_days ?a") auto
  obtain yb mb db where cb: "civil_from_days ?b = (yb, mb, db)"
    by (cases "civil_from_days ?b") auto
  from assms(1) have a0: "0 \<le> ?a" by simp
  from assms(3) have b9: "?b < 2930950" by simp
  with a0 assms(2) have b0: "0 \<le> ?b" and a9: "?a < 2930950" by simp_all
  from civil_from_days_bounds [OF a0 a9 ca]
  have ba: "0 \<le> ya" "ya \<le> 9999" "0 \<le> ma" "ma \<le> 99" "0 \<le> da" "da \<le> 99" by simp_all
  from civil_from_days_bounds [OF b0 b9 cb]
  have bb: "0 \<le> yb" "yb \<le> 9999" "0 \<le> mb" "mb \<le> 99" "0 \<le> db" "db \<le> 99" by simp_all
  from assms(2) have le: "?a \<le> ?b" by simp
  from civil_from_days_mono [OF a0 le ca cb] assms(2)
  consider "ya < yb" | "ya = yb" "ma < mb" | "ya = yb" "ma = mb" "da < db" by auto
  then have "pad4 ya @ ''-'' @ pad2 ma @ ''-'' @ pad2 da < pad4 yb @ ''-'' @ pad2 mb @ ''-'' @ pad2 db"
  proof cases
    case 1
    with ba bb have "pad4 ya < pad4 yb" by (intro pad4_less)
    moreover have "length (pad4 ya) = length (pad4 yb)" by (simp add: pad4_def)
    ultimately show ?thesis by (intro less_append_same_length)
  next
    case 2
    with ba bb have "pad2 ma < pad2 mb" by (intro pad2_less)
    moreover have "length (pad2 ma) = length (pad2 mb)" by (simp add: pad2_def)
    ultimately have "pad2 ma @ ''-'' @ pad2 da < pad2 mb @ ''-'' @ pad2 db"
      by (intro less_append_same_length)
    with 2 show ?thesis by (simp add: less_append_prefix)
  next
    case 3
    with ba bb have "pad2 da < pad2 db" by (intro pad2_less)
    with 3 show ?thesis by (simp add: less_append_prefix)
  qed
  with ca cb show ?thesis by (simp add: ymd_def)
qed

text \<open>
  So the text of an expiry is greater than the text of \<^verbatim>\<open>datetime('now')\<close> exactly when
  its date is not before the date of now: within the date the \<^verbatim>\<open>T\<close> of the one is
  compared with the blank of the other, and the time of day is never looked at.
\<close>

lemma datetime_less_toISOString:
  assumes "0 \<le> now" "now div 86400000 \<le> expiry div 86400000" "expiry < 253234080000000"
  shows "datetime now < toISOString expiry"
proof (cases "now div 86400000 = expiry div 86400000")
  case True
  then have "ymd now = ymd expiry" by (rule ymd_same_day)
  then show ?thesis
    by (simp add: datetime_def toISOString_def less_append_prefix less_char_def)
next
  case False
  with assms have "ymd now < ymd expiry" by (intro ymd_less) simp_all
  then show ?thesis
    unfolding datetime_def toISOString_def
    by (intro less_append_same_length) (simp_all add: ymd_length)
qed

lemma toISOString_less_datetime:
  assumes "0 \<le> expiry" "expiry div 86400000 < now div 86400000" "now < 253234080000000"
  shows "toISOString expiry < datetime now"
proof -
  from assms have "ymd expiry < ymd now" by (intro ymd_less)
  then show ?thesis
    unfolding datetime_def toISOString_def
    by (intro less_append_same_length) (simp_all add: ymd_length)
qed

lemma live_test_iff:
  assumes "0 \<le> now" "now < 253234080000000" "0 \<le> expiry" "expiry < 253234080000000"
  shows "datetime now < toISOString expiry \<longleftrightarrow> now div 86400000 \<le> expiry div 86400000"
    and "toISOString expiry < datetime now \<longleftrightarrow> expiry div 86400000 < now div 86400000"
proof -
  show "datetime now < toISOString expiry \<longleftrightarrow> now div 86400000 \<le> expiry div 86400000"
  proof
    assume l: "datetime now < toISOString expiry"
    show "now div 86400000 \<le> expiry div 86400000"
    proof (rule ccontr)
      assume "\<not> now div 86400000 \<le> expiry div 86400000"
      with assms have "toISOString expiry < datetime now"
        by (intro toISOString_less_datetime) simp_all
      with l show False by simp
    qed
  next
    assume "now div 86400000 \<le> expiry div 86400000"
    with assms show "datetime now < toISOString expiry" by (intro datetime_less_toISOString)
  qed
  then show "toISOString expiry < datetime now \<longleftrightarrow> expiry div 86400000 < now div 86400000"
    using assms toISOString_less_datetime [of expiry now] by (metis less_asym not_le)
qed

section \<open>One lock per event and seat\<close>

lemma locks_unique_filter:
  "locks_unique d \<Longrightarrow> locks_unique (d\<lparr>seat_locks := filter P (seat_locks d)\<rparr>)"
  by (simp add: locks_unique_def distinct_map_filter)

lemma locks_unique_cong:
  "seat_locks d' = seat_locks d \<Longrightarrow> locks_unique d' = locks_unique d"
  by (simp add: locks_unique_def)

lemma distinct_insert_or_replace_lock:
  assumes "distinct (map (\<lambda>l. (sl_event_id l, sl_seat_id l)) t)"
  shows "distinct (map (\<lambda>l. (sl_event_id l, sl_seat_id l)) (insert_or_replace_lock l t))"
proof -
  let ?key = "\<lambda>l. (sl_event_id l, sl_seat_id l)"
  let ?t = "filter (\<lambda>r. sl_id r \<noteq> sl_id l \<and>
                        \<not> (sl_event_id r = sl_event_id l \<and> sl_seat_id r = sl_seat_id l)) t"
  have "distinct (map ?key ?t)" using assms by (rule distinct_map_filter)
  moreover have "?key l \<notin> set (map ?key ?t)" by auto
  ultimately show ?thesis by (simp add: insert_or_replace_lock_def)
qed

lemma distinct_insert_locks:
  "distinct (map (\<lambda>l. (sl_event_id l, sl_seat_id l)) t) \<Longrightarrow>
   distinct (map (\<lambda>l. (sl_event_id l, sl_seat_id l)) (insert_locks uuid k e s x ids t))"
  by (induction ids arbitrary: k t) (simp_all add: distinct_insert_or_replace_lock)

lemma cleanExpiredLocks_unique: "locks_unique d \<Longrightarrow> locks_unique (cleanExpiredLocks now d)"
  unfolding cleanExpiredLocks_def by (rule locks_unique_filter)

lemma delete_session_locks_unique:
  "locks_unique d \<Longrightarrow> locks_unique (delete_session_locks e s d)"
  unfolding delete_session_locks_def by (rule locks_unique_filter)

lemma release_seats_unique: "locks_unique d \<Longrightarrow> locks_unique (release_seats e s d)"
  unfolding release_seats_def by (rule delete_session_locks_unique)

lemma lock_seats_unique:
  assumes "locks_unique d"
  shows "locks_unique (snd (lock_seats now uuid e ids s d))"
proof -
  have d1: "locks_unique (cleanExpiredLocks now d)"
    using assms by (rule cleanExpiredLocks_unique)
  then have "locks_unique (delete_session_locks e s (cleanExpiredLocks now d))"
    by (rule delete_session_locks_unique)
  then have "distinct (map (\<lambda>l. (sl_event_id l, sl_seat_id l))
       (insert_locks uuid 0 e s x ids (seat_locks (delete_session_locks e s (cleanExpiredLocks now d)))))"
    for x unfolding locks_unique_def by (rule distinct_insert_locks)
  then show ?thesis
    using assms d1 by (simp add: lock_seats_def Let_def locks_unique_def)
qed

lemma get_seats_store:
  "snd (get_seats now e d) = d \<or> snd (get_seats now e d) = cleanExpiredLocks now d"
  by (simp add: get_seats_def Let_def split: option.splits)

lemma get_seats_unique: "locks_unique d \<Longrightarrow> locks_unique (snd (get_seats now e d))"
  using get_seats_store [of now e d] cleanExpiredLocks_unique [of d now] by auto

lemma create_booking_locks:
  "seat_locks (snd (create_booking now uuid e ids s em nm ph d)) = seat_locks d \<or>
   seat_locks (snd (create_booking now uuid e ids s em nm ph d)) =
     filter (\<lambda>l. \<not> (sl_event_id l = e \<and> sl_session_id l = s)) (seat_locks d)"
  by (simp add: create_booking_def Let_def delete_session_locks_def split: option.splits)

lemma create_booking_unique:
  assumes "locks_unique d"
  shows "locks_unique (snd (create_booking now uuid e ids s em nm ph d))"
  using create_booking_locks [of now uuid e ids s em nm ph d] assms
  by (auto simp: locks_unique_def distinct_map_filter)

lemma process_payment_locks:
  "seat_locks (snd (process_payment now r qr uuid b m d)) = seat_locks d"
  by (simp add: process_payment_def Let_def split: option.splits)

lemma process_payment_unique:
  "locks_unique d \<Longrightarrow> locks_unique (snd (process_payment now r qr uuid b m d))"
  by (simp add: locks_unique_def process_payment_locks)

lemma reachable_unique: "reachable d \<Longrightarrow> locks_unique d"
proof (induction rule: reachable.induct)
  case (start d)
  then show ?case by (simp add: locks_unique_def)
qed (simp_all add: cleanExpiredLocks_unique lock_seats_unique release_seats_unique
       get_seats_unique create_booking_unique process_payment_unique)

lemma distinct_map_filter_le1:
  "distinct (map f xs) \<Longrightarrow> length (filter (\<lambda>l. f l = k) xs) \<le> 1"
proof (induction xs)
  case Nil
  then show ?case by simp
next
  case (Cons a xs)
  show ?case
  proof (cases "f a = k")
    case True
    with Cons.prems have "\<forall>l \<in> set xs. f l \<noteq> k" by (auto simp: image_iff)
    then have "filter (\<lambda>l. f l = k) xs = []" by (simp add: filter_empty_conv)
    with True show ?thesis by simp
  next
    case False
    with Cons show ?thesis by simp
  qed
qed

lemma unique_count:
  assumes "locks_unique d"
  shows "length (filter (\<lambda>l. sl_event_id l = e \<and> sl_seat_id l = x) (seat_locks d)) \<le> 1"
  using distinct_map_filter_le1 [of "\<lambda>l. (sl_event_id l, sl_seat_id l)" "seat_locks d" "(e, x)"] assms
  by (simp add: locks_unique_def)

section \<open>The lock handler\<close>

lemma cleanExpiredLocks_simps:
  "seats (cleanExpiredLocks now d) = seats d"
  "events (cleanExpiredLocks now d) = events d"
  "bookings (cleanExpiredLocks now d) = bookings d"
  "booking_seats (cleanExpiredLocks now d) = booking_seats d"
  "payments (cleanExpiredLocks now d) = payments d"
  "seat_locks (cleanExpiredLocks now d) =
     filter (\<lambda>l. \<not> sl_expires_at l < datetime now) (seat_locks d)"
  by (simp_all add: cleanExpiredLocks_def)

lemma attached_cleanExpiredLocks: "attached e x (cleanExpiredLocks now d) = attached e x d"
  by (simp add: attached_def cleanExpiredLocks_simps)

lemma foreign_lock_cleanExpiredLocks:
  "foreign_lock now e x s (cleanExpiredLocks now d) = foreign_lock now e x s d"
  by (auto simp: foreign_lock_iff cleanExpiredLocks_simps)

lemma held_cleanExpiredLocks: "held now e x s (cleanExpiredLocks now d) = held now e x s d"
  by (auto simp: held_def list_ex_iff cleanExpiredLocks_simps)

lemma lock_seats_granted_iff:
  "unavailable_query now e ids s (cleanExpiredLocks now d) = {#} \<longleftrightarrow>
     SQLITE_MAX_VARIABLE_NUMBER < int (length ids) + 4 \<or>
     (\<forall>x \<in> set ids. x \<in> s_id ` set (seats d) \<longrightarrow>
        \<not> attached e x d \<and> \<not> foreign_lock now e x s d)"
proof (cases "SQLITE_MAX_VARIABLE_NUMBER < int (length ids) + 4")
  case True
  then show ?thesis by (simp add: unavailable_query_thrown)
next
  case False
  then have "unavailable_query now e ids s (cleanExpiredLocks now d) = {#} \<longleftrightarrow>
        fst ` set (unavailable_rows now e ids s (cleanExpiredLocks now d)) = {}"
    by (simp add: unavailable_query_answered)
  also have "\<dots> \<longleftrightarrow> (\<forall>x \<in> set ids. x \<in> s_id ` set (seats d) \<longrightarrow>
            \<not> attached e x d \<and> \<not> foreign_lock now e x s d)"
    unfolding unavailable_ids
    by (auto simp: attached_cleanExpiredLocks foreign_lock_cleanExpiredLocks
          cleanExpiredLocks_simps)
  finally show ?thesis using False by simp
qed

lemma lock_seats_conflict:
  assumes "ids \<noteq> []" "s \<noteq> []"
    and "unavailable_query now e ids s (cleanExpiredLocks now d) \<noteq> {#}"
  shows "lock_seats now uuid e ids s d =
           (Inl (Conflict (unavailable_query now e ids s (cleanExpiredLocks now d))),
            cleanExpiredLocks now d)"
  using assms by (simp add: lock_seats_def Let_def)

lemma lock_seats_granted:
  assumes "ids \<noteq> []" "s \<noteq> []"
    and "unavailable_query now e ids s (cleanExpiredLocks now d) = {#}"
  shows "lock_seats now uuid e ids s d =
           (Inr (toISOString (now + 600000), length ids),
            (delete_session_locks e s (cleanExpiredLocks now d))
              \<lparr>seat_locks := insert_locks uuid 0 e s (toISOString (now + 600000)) ids
                 (seat_locks (delete_session_locks e s (cleanExpiredLocks now d)))\<rparr>)"
  using assms by (simp add: lock_seats_def Let_def LOCK_DURATION_MINUTES_def)

lemma lock_seats_cases:
  "(\<exists>m. lock_seats now uuid e ids s d = (Inl (ValidationError m), d)) \<or>
   (ids \<noteq> [] \<and> s \<noteq> [] \<and> unavailable_query now e ids s (cleanExpiredLocks now d) \<noteq> {#} \<and>
    lock_seats now uuid e ids s d =
      (Inl (Conflict (unavailable_query now e ids s (cleanExpiredLocks now d))),
       cleanExpiredLocks now d)) \<or>
   (ids \<noteq> [] \<and> s \<noteq> [] \<and> unavailable_query now e ids s (cleanExpiredLocks now d) = {#} \<and>
    (\<exists>d'. lock_seats now uuid e ids s d = (Inr (toISOString (now + 600000), length ids), d')))"
proof (cases "ids = [] \<or> s = []")
  case True
  then show ?thesis by (auto simp: lock_seats_def)
next
  case False
  then show ?thesis
    using lock_seats_conflict [of ids s now e d uuid] lock_seats_granted [of ids s now e d uuid]
    by (cases "unavailable_query now e ids s (cleanExpiredLocks now d) = {#}") auto
qed

text \<open>
  A request with so many ids that the statement is refused is granted whatever the
  locks and bookings are.
\<close>

lemma oversized_request_is_granted:
  assumes "s \<noteq> []" "SQLITE_MAX_VARIABLE_NUMBER < int (length ids) + 4"
  shows "fst (lock_seats now uuid e ids s d) = Inr (toISOString (now + 600000), length ids)"
proof -
  from assms(2) have "ids \<noteq> []" by (auto simp: SQLITE_MAX_VARIABLE_NUMBER_def)
  moreover from assms(2) have "unavailable_query now e ids s (cleanExpiredLocks now d) = {#}"
    by (rule unavailable_query_thrown)
  ultimately show ?thesis using assms(1) by (simp add: lock_seats_granted)
qed

lemma lock_blocks_other_session:
  assumes "ids \<noteq> []" "s' \<noteq> []" "x \<in> set ids" "x \<in> s_id ` set (seats d)"
    and "int (length ids) + 4 \<le> SQLITE_MAX_VARIABLE_NUMBER"
    and "l \<in> set (seat_locks d)" "sl_event_id l = e" "sl_seat_id l = x"
    and "sl_session_id l \<noteq> s'" "datetime now < sl_expires_at l"
  shows "\<exists>u. lock_seats now uuid e ids s' d = (Inl (Conflict u), cleanExpiredLocks now d) \<and>
             x \<in> fst ` set_mset u \<and> l \<in> set (seat_locks (cleanExpiredLocks now d))"
proof -
  let ?u = "unavailable_query now e ids s' (cleanExpiredLocks now d)"
  from assms have fl: "foreign_lock now e x s' d" by (auto simp: foreign_lock_iff)
  with assms have "x \<in> fst ` set (unavailable_rows now e ids s' (cleanExpiredLocks now d))"
    unfolding unavailable_ids
    by (simp add: foreign_lock_cleanExpiredLocks cleanExpiredLocks_simps)
  with assms(5) have x: "x \<in> fst ` set_mset ?u" by (simp add: unavailable_query_answered)
  then have "?u \<noteq> {#}" by auto
  with assms have "lock_seats now uuid e ids s' d = (Inl (Conflict ?u), cleanExpiredLocks now d)"
    by (simp add: lock_seats_conflict)
  moreover from assms have "l \<in> set (seat_locks (cleanExpiredLocks now d))"
    by (auto simp: cleanExpiredLocks_simps)
  ultimately show ?thesis using x by blast
qed

lemma booked_seat_blocks:
  assumes "ids \<noteq> []" "s \<noteq> []" "x \<in> set ids" "x \<in> s_id ` set (seats d)" "attached e x d"
    and "int (length ids) + 4 \<le> SQLITE_MAX_VARIABLE_NUMBER"
  shows "\<exists>u. lock_seats now uuid e ids s d = (Inl (Conflict u), cleanExpiredLocks now d) \<and>
             (\<exists>r n. (x, r, n, Some ''booked'') \<in># u)"
proof -
  let ?u = "unavailable_query now e ids s (cleanExpiredLocks now d)"
  let ?rows = "unavailable_rows now e ids s (cleanExpiredLocks now d)"
  from assms(6) have eq: "?u = mset ?rows" by (rule unavailable_query_answered)
  from assms have "x \<in> fst ` set ?rows"
    unfolding unavailable_ids
    by (simp add: attached_cleanExpiredLocks cleanExpiredLocks_simps)
  then obtain u where u: "u \<in> set ?rows" "fst u = x" by auto
  from in_unavailable [OF u(1)] assms u(2)
  have "snd (snd (snd u)) = Some ''booked''" by (simp add: attached_cleanExpiredLocks)
  with u have "(x, fst (snd u), fst (snd (snd u)), Some ''booked'') \<in> set ?rows"
    by (metis prod.collapse)
  then have mem: "(x, fst (snd u), fst (snd (snd u)), Some ''booked'') \<in># ?u"
    unfolding eq by simp
  then have "?u \<noteq> {#}" by auto
  with assms have "lock_seats now uuid e ids s d = (Inl (Conflict ?u), cleanExpiredLocks now d)"
    by (simp add: lock_seats_conflict)
  with mem show ?thesis by blast
qed

lemma unique_lock_eq:
  assumes "locks_unique d" "l \<in> set (seat_locks d)" "l' \<in> set (seat_locks d)"
    and "sl_event_id l = sl_event_id l'" "sl_seat_id l = sl_seat_id l'"
  shows "l = l'"
proof -
  from assms(1) have "inj_on (\<lambda>l. (sl_event_id l, sl_seat_id l)) (set (seat_locks d))"
    by (simp add: locks_unique_def distinct_map)
  with assms(2-) show ?thesis by (auto dest: inj_onD)
qed

lemma own_lock_not_foreign:
  assumes "locks_unique d" "l \<in> set (seat_locks d)"
    and "sl_event_id l = e" "sl_seat_id l = x" "sl_session_id l = s"
  shows "\<not> foreign_lock now e x s d"
proof
  assume "foreign_lock now e x s d"
  then obtain l' where l': "l' \<in> set (seat_locks d)" "sl_seat_id l' = x" "sl_event_id l' = e"
    "sl_session_id l' \<noteq> s" by (auto simp: foreign_lock_iff)
  with assms have "l = l'" by (intro unique_lock_eq [of d]) simp_all
  with assms l' show False by simp
qed

subsection \<open>The rows the loop inserts\<close>

lemma insert_or_replace_lock_keeps:
  assumes "r \<in> set t" "sl_id r \<noteq> sl_id l"
    and "\<not> (sl_event_id r = sl_event_id l \<and> sl_seat_id r = sl_seat_id l)"
  shows "r \<in> set (insert_or_replace_lock l t)"
  using assms by (simp add: insert_or_replace_lock_def)

lemma insert_locks_keeps:
  assumes "r \<in> set t" "sl_id r \<notin> uuid ` {k ..< k + length ids}"
    and "\<not> (sl_event_id r = e \<and> sl_seat_id r \<in> set ids)"
  shows "r \<in> set (insert_locks uuid k e s x ids t)"
  using assms
proof (induction ids arbitrary: k t)
  case Nil
  then show ?case by simp
next
  case (Cons a ids)
  let ?new = "\<lparr>sl_id = uuid k, sl_event_id = e, sl_seat_id = a, sl_session_id = s,
               sl_expires_at = x\<rparr>"
  have "k \<in> {k ..< k + length (a # ids)}" by simp
  with Cons.prems(2) have "sl_id r \<noteq> uuid k" by blast
  moreover from Cons.prems(3) have "\<not> (sl_event_id r = e \<and> sl_seat_id r = a)" by simp
  ultimately have 1: "r \<in> set (insert_or_replace_lock ?new t)"
    using Cons.prems(1) by (simp add: insert_or_replace_lock_def)
  have "{Suc k ..< Suc k + length ids} \<subseteq> {k ..< k + length (a # ids)}" by auto
  with Cons.prems(2) have 2: "sl_id r \<notin> uuid ` {Suc k ..< Suc k + length ids}" by blast
  from Cons.prems(3) have 3: "\<not> (sl_event_id r = e \<and> sl_seat_id r \<in> set ids)" by simp
  from Cons.IH [OF 1 2 3] show ?case by simp
qed

lemma insert_locks_inserts:
  assumes "a \<in> set ids" "inj_on uuid {k ..< k + length ids}"
  shows "\<exists>r \<in> set (insert_locks uuid k e s x ids t).
           sl_event_id r = e \<and> sl_seat_id r = a \<and> sl_session_id r = s \<and> sl_expires_at r = x"
  using assms
proof (induction ids arbitrary: k t)
  case Nil
  then show ?case by simp
next
  case (Cons b ids)
  let ?new = "\<lparr>sl_id = uuid k, sl_event_id = e, sl_seat_id = b, sl_session_id = s,
               sl_expires_at = x\<rparr>"
  let ?t = "insert_or_replace_lock ?new t"
  have sub: "{Suc k ..< Suc k + length ids} \<subseteq> {k ..< k + length (b # ids)}" by auto
  have inj: "inj_on uuid {Suc k ..< Suc k + length ids}"
    using Cons.prems(2) sub by (rule inj_on_subset)
  show ?case
  proof (cases "a \<in> set ids")
    case True
    from Cons.IH [OF True inj] show ?thesis by simp
  next
    case False
    with Cons.prems(1) have ab: "a = b" by simp
    have fresh: "uuid k \<notin> uuid ` {Suc k ..< Suc k + length ids}"
    proof
      assume "uuid k \<in> uuid ` {Suc k ..< Suc k + length ids}"
      then obtain j where j: "j \<in> {Suc k ..< Suc k + length ids}" "uuid k = uuid j" by blast
      have "k \<in> {k ..< k + length (b # ids)}" by simp
      moreover from j sub have "j \<in> {k ..< k + length (b # ids)}" by blast
      ultimately have "k = j" using Cons.prems(2) j(2) by (rule inj_onD [rotated 2])
      with j(1) show False by simp
    qed
    have new: "?new \<in> set ?t" by (simp add: insert_or_replace_lock_def)
    have "?new \<in> set (insert_locks uuid (Suc k) e s x ids ?t)"
    proof (rule insert_locks_keeps [OF new])
      show "sl_id ?new \<notin> uuid ` {Suc k ..< Suc k + length ids}" using fresh by simp
      show "\<not> (sl_event_id ?new = e \<and> sl_seat_id ?new \<in> set ids)" using False ab by simp
    qed
    then have "?new \<in> set (insert_locks uuid k e s x (b # ids) t)" by simp
    moreover have "sl_event_id ?new = e \<and> sl_seat_id ?new = a \<and> sl_session_id ?new = s \<and>
                   sl_expires_at ?new = x" using ab by simp
    ultimately show ?thesis by blast
  qed
qed

lemma insert_or_replace_lock_rows:
  "r \<in> set (insert_or_replace_lock l t) \<Longrightarrow> r \<in> set t \<or> r = l"
  by (auto simp: insert_or_replace_lock_def)

lemma insert_locks_rows:
  assumes "r \<in> set (insert_locks uuid k e s x ids t)"
  shows "r \<in> set t \<or>
         (sl_event_id r = e \<and> sl_seat_id r \<in> set ids \<and> sl_session_id r = s \<and> sl_expires_at r = x)"
  using assms
proof (induction ids arbitrary: k t)
  case Nil
  then show ?case by simp
next
  case (Cons b ids)
  let ?new = "\<lparr>sl_id = uuid k, sl_event_id = e, sl_seat_id = b, sl_session_id = s,
               sl_expires_at = x\<rparr>"
  from Cons.prems have "r \<in> set (insert_locks uuid (Suc k) e s x ids (insert_or_replace_lock ?new t))"
    by simp
  from Cons.IH [OF this] show ?case
  proof
    assume "r \<in> set (insert_or_replace_lock ?new t)"
    then have "r \<in> set t \<or> r = ?new" by (rule insert_or_replace_lock_rows)
    then show ?thesis by auto
  next
    assume "sl_event_id r = e \<and> sl_seat_id r \<in> set ids \<and> sl_session_id r = s \<and> sl_expires_at r = x"
    then show ?thesis by simp
  qed
qed

subsection \<open>Locks and the clock\<close>

text \<open>
  A lock whose expiry lies on the date of now or later, in UTC, passes the test of the
  handlers and is kept by the purge, whether or not its expiry has passed; the purge
  deletes it once the date of now is after the date of the expiry.
\<close>

lemma lock_kept_until_date_changes:
  assumes "l \<in> set (seat_locks d)" "sl_expires_at l = toISOString expiry"
    and "0 \<le> now" "now div 86400000 \<le> expiry div 86400000" "expiry < 253234080000000"
  shows "datetime now < sl_expires_at l \<and> l \<in> set (seat_locks (cleanExpiredLocks now d))"
proof -
  from assms(3-5) have "datetime now < toISOString expiry" by (rule datetime_less_toISOString)
  with assms(1,2) show ?thesis by (auto simp: cleanExpiredLocks_simps)
qed

lemma lock_purged_after_date_changes:
  assumes "sl_expires_at l = toISOString expiry"
    and "0 \<le> expiry" "expiry div 86400000 < now div 86400000" "now < 253234080000000"
  shows "l \<notin> set (seat_locks (cleanExpiredLocks now d))"
proof -
  from assms(2-4) have "toISOString expiry < datetime now" by (rule toISOString_less_datetime)
  with assms(1) show ?thesis by (simp add: cleanExpiredLocks_simps)
qed

lemma lock_seats_inserts:
  assumes "fst (lock_seats now uuid e ids s d) = Inr g" "x \<in> set ids"
    and "distinct (map uuid [0 ..< length ids])"
  shows "\<exists>l \<in> set (seat_locks (snd (lock_seats now uuid e ids s d))).
           sl_event_id l = e \<and> sl_seat_id l = x \<and> sl_session_id l = s \<and>
           sl_expires_at l = toISOString (now + 600000)"
proof -
  from assms(1) lock_seats_cases [of now uuid e ids s d]
  have ok: "ids \<noteq> []" "s \<noteq> []" "unavailable_query now e ids s (cleanExpiredLocks now d) = {#}"
    by auto
  from assms(3) have "inj_on uuid {0 ..< 0 + length ids}" by (simp add: distinct_map)
  with assms(2) have "\<exists>r \<in> set (insert_locks uuid 0 e s (toISOString (now + 600000)) ids
              (seat_locks (delete_session_locks e s (cleanExpiredLocks now d)))).
          sl_event_id r = e \<and> sl_seat_id r = x \<and> sl_session_id r = s \<and>
          sl_expires_at r = toISOString (now + 600000)"
    by (intro insert_locks_inserts) simp_all
  then show ?thesis by (simp add: lock_seats_granted [OF ok])
qed

text \<open>A lock the handler has granted is held for the ten minutes that follow.\<close>

lemma granted_lock_is_held:
  assumes "fst (lock_seats t uuid e ids s d) = Inr g" "x \<in> set ids"
    and "distinct (map uuid [0 ..< length ids])"
    and "0 \<le> t" "t \<le> now" "now \<le> t + 600000" "t + 600000 < 253234080000000"
  shows "held now e x s (snd (lock_seats t uuid e ids s d))"
proof -
  from lock_seats_inserts [OF assms(1-3)] obtain l where
    l: "l \<in> set (seat_locks (snd (lock_seats t uuid e ids s d)))" "sl_event_id l = e"
      "sl_seat_id l = x" "sl_session_id l = s" "sl_expires_at l = toISOString (t + 600000)"
    by blast
  from assms(4,5) have "0 \<le> now" by simp
  moreover from assms(6) have "now div 86400000 \<le> (t + 600000) div 86400000"
    by (intro zdiv_mono1) simp_all
  ultimately have "datetime now < toISOString (t + 600000)"
    using assms(7) by (rule datetime_less_toISOString)
  with l show ?thesis by (auto simp: held_def list_ex_iff)
qed

text \<open>A live lock passes the test of the handlers, and is a lock row of its session.\<close>

lemma live_lock_held: "0 \<le> now \<Longrightarrow> live_lock now e x s d \<Longrightarrow> held now e x s d"
proof -
  assume now: "0 \<le> now" and "live_lock now e x s d"
  then obtain l expiry where l: "l \<in> set (seat_locks d)" "sl_event_id l = e" "sl_seat_id l = x"
    "sl_session_id l = s" "sl_expires_at l = toISOString expiry" "now < expiry"
    "expiry < 253234080000000" by (auto simp: live_lock_def)
  from l(6) have "now div 86400000 \<le> expiry div 86400000" by (intro zdiv_mono1) simp_all
  with now have "datetime now < toISOString expiry" using l(7) by (rule datetime_less_toISOString)
  with l show ?thesis by (auto simp: held_def list_ex_iff)
qed

lemma held_owned_lock: "held now e x s d \<Longrightarrow> owned_lock e x s d"
  by (auto simp: held_def owned_lock_def list_ex_iff)

lemma live_lock_cleanExpiredLocks:
  assumes "0 \<le> now" "live_lock now e x s d"
  shows "live_lock now e x s (cleanExpiredLocks now d)"
proof -
  from assms(2) obtain l expiry where l: "l \<in> set (seat_locks d)" "sl_event_id l = e"
    "sl_seat_id l = x" "sl_session_id l = s" "sl_expires_at l = toISOString expiry"
    "now < expiry" "expiry < 253234080000000" by (auto simp: live_lock_def)
  from l(6) have "now div 86400000 \<le> expiry div 86400000" by (intro zdiv_mono1) simp_all
  with l(1,5) assms(1) l(7) have "l \<in> set (seat_locks (cleanExpiredLocks now d))"
    using lock_kept_until_date_changes by blast
  with l show ?thesis unfolding live_lock_def by blast
qed

lemma owned_lock_excludes_other:
  assumes "locks_unique d" "owned_lock e x s d" "s' \<noteq> s"
  shows "\<not> owned_lock e x s' d"
proof
  assume "owned_lock e x s' d"
  then obtain l' where l': "l' \<in> set (seat_locks d)" "sl_event_id l' = e" "sl_seat_id l' = x"
    "sl_session_id l' = s'" by (auto simp: owned_lock_def list_ex_iff)
  from assms(2) obtain l where l: "l \<in> set (seat_locks d)" "sl_event_id l = e"
    "sl_seat_id l = x" "sl_session_id l = s" by (auto simp: owned_lock_def list_ex_iff)
  from assms(1) l l' have "l = l'" by (intro unique_lock_eq [of d]) simp_all
  with l l' assms(3) show False by simp
qed

lemma live_lockI:
  assumes "l \<in> set (seat_locks d)" "sl_event_id l = e" "sl_seat_id l = x" "sl_session_id l = s"
    and "sl_expires_at l = toISOString expiry" "now < expiry" "expiry < 253234080000000"
  shows "live_lock now e x s d"
  unfolding live_lock_def using assms by blast

section \<open>Scenarios\<close>

text \<open>The stores of the scenarios are what the handlers make of the store without locks.\<close>

lemma store_locked_origin:
  "store_locked = snd (lock_seats t0 (uuids ''lx'') ''E1'' [''A1'', ''A2''] ''X'' store0)"
  by code_simp

lemma store_pending_origin:
  "store_pending =
     snd (create_booking (t0 + 60000) (uuids ''bx'') ''E1'' [''B1''] ''X'' ''x@example.org''
            ''X'' None
            (snd (lock_seats t0 (uuids ''lx'') ''E1'' [''B1''] ''X'' store0)))"
  by code_simp

lemma store_sold_origin:
  "store_sold =
     snd (process_payment (t0 + 50000) (1 / 2) (Some ''qr'') (uuids ''pw'') ''bw-0000'' ''card''
       (snd (create_booking (t0 + 40000) (uuids ''bw'') ''E1'' [''C1''] ''W'' ''w@example.org''
               ''W'' None
          (snd (lock_seats t0 (uuids ''lw'') ''E1'' [''C1''] ''W'' store0)))))"
  by code_simp

lemma store_busy_origin:
  "store_busy =
     snd (lock_seats (t0 + 100000) (uuids ''lx'') ''E1'' [''A1'', ''A2''] ''X''
       (snd (create_booking (t0 + 80000) (uuids ''bz'') ''E1'' [''B1''] ''Z'' ''z@example.org''
               ''Z'' None
          (snd (lock_seats (t0 + 70000) (uuids ''lz'') ''E1'' [''B1''] ''Z'' store_sold)))))"
  by code_simp

lemma store_plain_origin:
  "store_plain = snd (lock_seats t0 (uuids ''lp'') ''E2'' [''A1'', ''C1'', ''F1''] ''P'' store0)"
  by code_simp

lemma store_ghost_origin:
  "store_ghost = snd (lock_seats t0 (uuids ''lg'') ''E1'' [''Z9''] ''G'' store0)"
  by code_simp

text \<open>One minute after \<open>t0\<close> the locks written at \<open>t0\<close> are live.\<close>

lemma store_locked_live:
  "live_lock (t0 + 60000) ''E1'' ''A1'' ''X'' store_locked"
  "live_lock (t0 + 60000) ''E1'' ''A2'' ''X'' store_locked"
proof -
  show "live_lock (t0 + 60000) ''E1'' ''A1'' ''X'' store_locked"
    by (rule live_lockI [where expiry = "t0 + 600000" and
          l = "\<lparr>sl_id = ''lx-0000'', sl_event_id = ''E1'', sl_seat_id = ''A1'',
                sl_session_id = ''X'', sl_expires_at = ''2026-11-02T12:10:00.000Z''\<rparr>"];
        code_simp)
  show "live_lock (t0 + 60000) ''E1'' ''A2'' ''X'' store_locked"
    by (rule live_lockI [where expiry = "t0 + 600000" and
          l = "\<lparr>sl_id = ''lx-0001'', sl_event_id = ''E1'', sl_seat_id = ''A2'',
                sl_session_id = ''X'', sl_expires_at = ''2026-11-02T12:10:00.000Z''\<rparr>"];
        code_simp)
qed

lemma store_ghost_live: "live_lock (t0 + 60000) ''E1'' ''Z9'' ''G'' store_ghost"
  by (rule live_lockI [where expiry = "t0 + 600000" and
        l = "\<lparr>sl_id = ''lg-0000'', sl_event_id = ''E1'', sl_seat_id = ''Z9'',
              sl_session_id = ''G'', sl_expires_at = ''2026-11-02T12:10:00.000Z''\<rparr>"];
      code_simp)

text \<open>
  Claim C1: a seat attached to a booking of the event, pending or confirmed, is refused to
  every other session with 409. The query of the lock handler joins the bookings with
  \<^verbatim>\<open>status = 'confirmed'\<close> only, and the booking handler has deleted the locks of the
  seats (``seats are now in pending booking''). Here session X has locked and booked B1,
  the booking is pending, and session Z asks for B1 two minutes after \<open>t0\<close>: the handler
  answers with success and writes a lock of Z on B1.
\<close>

theorem pending_booking_seat_is_locked_again:
  "store_pending =
     snd (create_booking (t0 + 60000) (uuids ''bx'') ''E1'' [''B1''] ''X'' ''x@example.org''
            ''X'' None
            (snd (lock_seats t0 (uuids ''lx'') ''E1'' [''B1''] ''X'' store0))) \<and>
   map b_status (bookings store_pending) = [''pending''] \<and>
   map b_event_id (bookings store_pending) = [''E1''] \<and>
   map bs_seat_id (booking_seats store_pending) = [''B1''] \<and>
   fst (lock_seats (t0 + 120000) (uuids ''lz'') ''E1'' [''B1''] ''Z'' store_pending) =
     Inr (''2026-11-02T12:12:00.000Z'', 1) \<and>
   seat_locks (snd (lock_seats (t0 + 120000) (uuids ''lz'') ''E1'' [''B1''] ''Z'' store_pending)) =
     [\<lparr>sl_id = ''lz-0000'', sl_event_id = ''E1'', sl_seat_id = ''B1'', sl_session_id = ''Z'',
       sl_expires_at = ''2026-11-02T12:12:00.000Z''\<rparr>]"
  by code_simp

text \<open>
  Claim C2: once the expiry of a lock has passed and a purge has run, the lock is gone and
  another session obtains the seat. The purge compares the stored text
  \<^verbatim>\<open>2026-11-02T12:10:00.000Z\<close> with \<^verbatim>\<open>datetime('now')\<close>, here
  \<^verbatim>\<open>2026-11-02 12:20:00\<close>: the texts agree up to the date and then \<^verbatim>\<open>T\<close> is greater
  than the blank, so the lock of X that expired ten minutes ago is not deleted, still
  passes \<^verbatim>\<open>expires_at > datetime('now')\<close>, and session Y is refused with 409.
\<close>

theorem expired_lock_survives_purge:
  "store_locked = snd (lock_seats t0 (uuids ''lx'') ''E1'' [''A1'', ''A2''] ''X'' store0) \<and>
   toISOString (t0 + 600000) = ''2026-11-02T12:10:00.000Z'' \<and>
   datetime (t0 + 1200000) = ''2026-11-02 12:20:00'' \<and>
   map sl_expires_at (seat_locks store_locked) =
     [''2026-11-02T12:10:00.000Z'', ''2026-11-02T12:10:00.000Z''] \<and>
   cleanExpiredLocks (t0 + 1200000) store_locked = store_locked \<and>
   lock_seats (t0 + 1200000) (uuids ''ly'') ''E1'' [''A1''] ''Y'' store_locked =
     (Inl (Conflict {#(''A1'', ''A'', 1, Some ''locked'')#}), store_locked)"
  by code_simp

section \<open>Claims on the lock handler\<close>

lemma refresh_own_lock:
  assumes uniq: "locks_unique d" and s: "s \<noteq> []"
    and own: "held now e x s d" and free: "\<not> attached e x d"
  shows "\<exists>d'. lock_seats now uuid e [x] s d = (Inr (toISOString (now + 600000), 1), d') \<and>
              (\<exists>l \<in> set (seat_locks d'). sl_event_id l = e \<and> sl_seat_id l = x \<and>
                 sl_session_id l = s \<and> sl_expires_at l = toISOString (now + 600000))"
proof -
  from own obtain l where l: "l \<in> set (seat_locks d)" "sl_event_id l = e" "sl_seat_id l = x"
    "sl_session_id l = s" by (auto simp: held_def list_ex_iff)
  with uniq have "\<not> foreign_lock now e x s d" by (intro own_lock_not_foreign [of d l])
  with free have "unavailable_query now e [x] s (cleanExpiredLocks now d) = {#}"
    by (simp add: lock_seats_granted_iff)
  with s have eq: "lock_seats now uuid e [x] s d =
      (Inr (toISOString (now + 600000), length [x]),
       (delete_session_locks e s (cleanExpiredLocks now d))
         \<lparr>seat_locks := insert_locks uuid 0 e s (toISOString (now + 600000)) [x]
            (seat_locks (delete_session_locks e s (cleanExpiredLocks now d)))\<rparr>)"
    by (intro lock_seats_granted) simp_all
  have "\<exists>r \<in> set (insert_locks uuid 0 e s (toISOString (now + 600000)) [x]
              (seat_locks (delete_session_locks e s (cleanExpiredLocks now d)))).
          sl_event_id r = e \<and> sl_seat_id r = x \<and> sl_session_id r = s \<and>
          sl_expires_at r = toISOString (now + 600000)"
    by (rule insert_locks_inserts) simp_all
  with eq show ?thesis by simp
qed

lemma held_excludes_other:
  assumes "locks_unique d" "held now e x s d" "s' \<noteq> s"
  shows "\<not> held now' e x s' d"
proof
  assume "held now' e x s' d"
  then obtain l' where l': "l' \<in> set (seat_locks d)" "sl_event_id l' = e" "sl_seat_id l' = x"
    "sl_session_id l' = s'" by (auto simp: held_def list_ex_iff)
  from assms(2) obtain l where l: "l \<in> set (seat_locks d)" "sl_event_id l = e"
    "sl_seat_id l = x" "sl_session_id l = s" by (auto simp: held_def list_ex_iff)
  from assms(1) l l' have "l = l'" by (intro unique_lock_eq [of d]) simp_all
  with l l' assms(3) show False by simp
qed

lemma live_lock_blocks_other:
  assumes uniq: "locks_unique d" and ids: "x \<in> set ids"
    and size: "int (length ids) + 4 \<le> SQLITE_MAX_VARIABLE_NUMBER"
    and seat: "x \<in> s_id ` set (seats d)"
    and now: "0 \<le> now" and own: "live_lock now e x s d" and other: "s' \<noteq> []" "s' \<noteq> s"
  shows "(\<exists>u. lock_seats now uuid e ids s' d = (Inl (Conflict u), cleanExpiredLocks now d) \<and>
              x \<in> fst ` set_mset u) \<and>
         live_lock now e x s (cleanExpiredLocks now d) \<and>
         \<not> owned_lock e x s' (cleanExpiredLocks now d)"
proof -
  from now own have "held now e x s d" by (rule live_lock_held)
  then obtain l where l: "l \<in> set (seat_locks d)" "sl_event_id l = e" "sl_seat_id l = x"
    "sl_session_id l = s" "datetime now < sl_expires_at l" by (auto simp: held_def list_ex_iff)
  with other have "sl_session_id l \<noteq> s'" by simp
  moreover from ids have "ids \<noteq> []" by auto
  ultimately
  have "\<exists>u. lock_seats now uuid e ids s' d = (Inl (Conflict u), cleanExpiredLocks now d) \<and>
              x \<in> fst ` set_mset u \<and> l \<in> set (seat_locks (cleanExpiredLocks now d))"
    using ids seat other(1) size l by (intro lock_blocks_other_session) simp_all
  moreover have live: "live_lock now e x s (cleanExpiredLocks now d)"
    using now own by (rule live_lock_cleanExpiredLocks)
  moreover have "\<not> owned_lock e x s' (cleanExpiredLocks now d)"
  proof -
    from now live have "held now e x s (cleanExpiredLocks now d)" by (rule live_lock_held)
    then have "owned_lock e x s (cleanExpiredLocks now d)" by (rule held_owned_lock)
    with cleanExpiredLocks_unique [OF uniq] show ?thesis
      using other(2) by (rule owned_lock_excludes_other)
  qed
  ultimately show ?thesis by blast
qed

text \<open>
  Claim C3, as stated: a live lock blocks every other session from obtaining a lock on
  that event and seat. The query that finds the unavailable seats ranges over the rows
  of \<^verbatim>\<open>seats\<close>, and the handler locks ids that are no such row as well: session G holds
  the lock on Z9 that the handler has granted it at \<open>t0\<close>, and one minute later session
  H asks for Z9, is granted it, and the row of G is replaced by the row of H.
\<close>

theorem lock_outside_seats_is_taken_over:
  "store_ghost = snd (lock_seats t0 (uuids ''lg'') ''E1'' [''Z9''] ''G'' store0) \<and>
   live_lock (t0 + 60000) ''E1'' ''Z9'' ''G'' store_ghost \<and>
   lock_seats (t0 + 60000) (uuids ''lh'') ''E1'' [''Z9''] ''H'' store_ghost =
     (Inr (''2026-11-02T12:11:00.000Z'', 1),
      store0\<lparr>seat_locks :=
        [\<lparr>sl_id = ''lh-0000'', sl_event_id = ''E1'', sl_seat_id = ''Z9'', sl_session_id = ''H'',
          sl_expires_at = ''2026-11-02T12:11:00.000Z''\<rparr>]\<rparr>)"
proof -
  have "lock_seats (t0 + 60000) (uuids ''lh'') ''E1'' [''Z9''] ''H'' store_ghost =
     (Inr (''2026-11-02T12:11:00.000Z'', 1),
      store0\<lparr>seat_locks :=
        [\<lparr>sl_id = ''lh-0000'', sl_event_id = ''E1'', sl_seat_id = ''Z9'', sl_session_id = ''H'',
          sl_expires_at = ''2026-11-02T12:11:00.000Z''\<rparr>]\<rparr>)" by code_simp
  with store_ghost_origin store_ghost_live show ?thesis by blast
qed

text \<open>
  Claim C3, amended: in every reachable store there is at most one lock row, live or
  not, for an event and a seat, and the handlers and the reaper keep it so. A session
  that holds a seat is granted it again, with a fresh row of its own, and a lock the
  handler has granted passes the handlers' test \<^verbatim>\<open>expires_at > datetime('now')\<close> for the
  ten minutes that follow. A live lock on a seat that is a row of \<^verbatim>\<open>seats\<close> blocks every
  other session whose request the store answers (a request of at most 32762 ids): the
  request gets 409 naming the seat, the lock stays live and the other session has no lock
  on the seat. Live means that the expiry of the lock has not passed (clock readings
  before the year 9994).
\<close>

theorem one_lock_per_event_seat:
  "(reachable d \<longrightarrow> locks_unique d) \<and>
   (locks_unique d \<longrightarrow>
      length (filter (\<lambda>l. sl_event_id l = e \<and> sl_seat_id l = x) (seat_locks d)) \<le> 1 \<and>
      locks_unique (snd (lock_seats now uuid e ids s d)) \<and>
      locks_unique (release_seats e s d) \<and>
      locks_unique (snd (create_booking now uuid e ids s em nm ph d)) \<and>
      locks_unique (snd (process_payment now r qr uuid b m d)) \<and>
      locks_unique (cleanExpiredLocks now d) \<and>
      locks_unique (snd (get_seats now e d))) \<and>
   (locks_unique d \<and> s \<noteq> [] \<and> held now e x s d \<and> \<not> attached e x d \<longrightarrow>
      (\<exists>d'. lock_seats now uuid e [x] s d = (Inr (toISOString (now + 600000), 1), d') \<and>
            (\<exists>l \<in> set (seat_locks d'). sl_event_id l = e \<and> sl_seat_id l = x \<and>
               sl_session_id l = s \<and> sl_expires_at l = toISOString (now + 600000)))) \<and>
   (locks_unique d \<and> x \<in> set ids \<and> int (length ids) + 4 \<le> SQLITE_MAX_VARIABLE_NUMBER \<and>
    x \<in> s_id ` set (seats d) \<and> 0 \<le> now \<and> live_lock now e x s d \<and> s' \<noteq> [] \<and> s' \<noteq> s \<longrightarrow>
      (\<exists>u. lock_seats now uuid e ids s' d = (Inl (Conflict u), cleanExpiredLocks now d) \<and>
           x \<in> fst ` set_mset u) \<and>
      live_lock now e x s (cleanExpiredLocks now d) \<and>
      \<not> owned_lock e x s' (cleanExpiredLocks now d)) \<and>
   (fst (lock_seats t uuid e ids s d) = Inr g \<and> x \<in> set ids \<and>
    distinct (map uuid [0 ..< length ids]) \<and>
    0 \<le> t \<and> t \<le> now \<and> now \<le> t + 600000 \<and> t + 600000 < 253234080000000 \<longrightarrow>
      held now e x s (snd (lock_seats t uuid e ids s d)))"
proof (intro conjI impI)
  assume "fst (lock_seats t uuid e ids s d) = Inr g \<and> x \<in> set ids \<and>
    distinct (map uuid [0 ..< length ids]) \<and>
    0 \<le> t \<and> t \<le> now \<and> now \<le> t + 600000 \<and> t + 600000 < 253234080000000"
  then show "held now e x s (snd (lock_seats t uuid e ids s d))"
    by (intro granted_lock_is_held [of t uuid e ids s d g]) simp_all
next
  assume "reachable d" then show "locks_unique d" by (rule reachable_unique)
next
  assume u: "locks_unique d"
  from u show "length (filter (\<lambda>l. sl_event_id l = e \<and> sl_seat_id l = x) (seat_locks d)) \<le> 1"
    by (rule unique_count)
  from u show "locks_unique (snd (lock_seats now uuid e ids s d))" by (rule lock_seats_unique)
  from u show "locks_unique (release_seats e s d)" by (rule release_seats_unique)
  from u show "locks_unique (snd (create_booking now uuid e ids s em nm ph d))"
    by (rule create_booking_unique)
  from u show "locks_unique (snd (process_payment now r qr uuid b m d))"
    by (rule process_payment_unique)
  from u show "locks_unique (cleanExpiredLocks now d)" by (rule cleanExpiredLocks_unique)
  from u show "locks_unique (snd (get_seats now e d))" by (rule get_seats_unique)
next
  assume "locks_unique d \<and> s \<noteq> [] \<and> held now e x s d \<and> \<not> attached e x d"
  then show "\<exists>d'. lock_seats now uuid e [x] s d = (Inr (toISOString (now + 600000), 1), d') \<and>
            (\<exists>l \<in> set (seat_locks d'). sl_event_id l = e \<and> sl_seat_id l = x \<and>
               sl_session_id l = s \<and> sl_expires_at l = toISOString (now + 600000))"
    using refresh_own_lock by blast
next
  assume a: "locks_unique d \<and> x \<in> set ids \<and>
    int (length ids) + 4 \<le> SQLITE_MAX_VARIABLE_NUMBER \<and>
    x \<in> s_id ` set (seats d) \<and> 0 \<le> now \<and> live_lock now e x s d \<and> s' \<noteq> [] \<and> s' \<noteq> s"
  then have *: "(\<exists>u. lock_seats now uuid e ids s' d = (Inl (Conflict u), cleanExpiredLocks now d) \<and>
           x \<in> fst ` set_mset u) \<and>
      live_lock now e x s (cleanExpiredLocks now d) \<and>
      \<not> owned_lock e x s' (cleanExpiredLocks now d)"
    by (intro live_lock_blocks_other) simp_all
  from * show "\<exists>u. lock_seats now uuid e ids s' d = (Inl (Conflict u), cleanExpiredLocks now d) \<and>
           x \<in> fst ` set_mset u" by blast
  from * show "live_lock now e x s (cleanExpiredLocks now d)" by blast
  from * show "\<not> owned_lock e x s' (cleanExpiredLocks now d)" by blast
qed

theorem one_lock_per_event_seat_witness:
  "reachable store_locked \<and> locks_unique store_locked \<and>
   held (t0 + 60000) ''E1'' ''A1'' ''X'' store_locked \<and> \<not> attached ''E1'' ''A1'' store_locked \<and>
   ''A1'' \<in> s_id ` set (seats store_locked) \<and>
   length (filter (\<lambda>l. sl_event_id l = ''E1'' \<and> sl_seat_id l = ''A1'') (seat_locks store_locked)) \<le> 1 \<and>
   locks_unique (snd (lock_seats (t0 + 60000) (uuids ''w'') ''E1'' [''A1'', ''F1''] ''X'' store_locked)) \<and>
   locks_unique (release_seats ''E1'' ''X'' store_locked) \<and>
   locks_unique (snd (create_booking (t0 + 60000) (uuids ''w'') ''E1'' [''A1'', ''F1''] ''X''
                        ''x@example.org'' ''X'' None store_locked)) \<and>
   locks_unique (snd (process_payment (t0 + 60000) (1 / 2) (Some ''qr'') (uuids ''w'') ''bx-0000''
                        ''card'' store_locked)) \<and>
   locks_unique (cleanExpiredLocks (t0 + 60000) store_locked) \<and>
   locks_unique (snd (get_seats (t0 + 60000) ''E1'' store_locked)) \<and>
   (\<exists>d'. lock_seats (t0 + 60000) (uuids ''w'') ''E1'' [''A1''] ''X'' store_locked =
            (Inr (toISOString (t0 + 60000 + 600000), 1), d') \<and>
          (\<exists>l \<in> set (seat_locks d'). sl_event_id l = ''E1'' \<and> sl_seat_id l = ''A1'' \<and>
             sl_session_id l = ''X'' \<and> sl_expires_at l = toISOString (t0 + 60000 + 600000))) \<and>
   int (length [''A1'', ''F1'']) + 4 \<le> SQLITE_MAX_VARIABLE_NUMBER \<and>
   live_lock (t0 + 60000) ''E1'' ''A1'' ''X'' store_locked \<and>
   (\<exists>u. lock_seats (t0 + 60000) (uuids ''w'') ''E1'' [''A1'', ''F1''] ''Y'' store_locked =
           (Inl (Conflict u), cleanExpiredLocks (t0 + 60000) store_locked) \<and>
         ''A1'' \<in> fst ` set_mset u) \<and>
   live_lock (t0 + 60000) ''E1'' ''A1'' ''X'' (cleanExpiredLocks (t0 + 60000) store_locked) \<and>
   \<not> owned_lock ''E1'' ''A1'' ''Y'' (cleanExpiredLocks (t0 + 60000) store_locked) \<and>
   fst (lock_seats (t0 - 540000) (uuids ''w'') ''E1'' [''A1'', ''F1''] ''X'' store_locked) =
     Inr (''2026-11-02T12:01:00.000Z'', 2) \<and>
   distinct (map (uuids ''w'') [0 ..< length [''A1'', ''F1'']]) \<and>
   held (t0 + 60000) ''E1'' ''A1'' ''X''
     (snd (lock_seats (t0 - 540000) (uuids ''w'') ''E1'' [''A1'', ''F1''] ''X'' store_locked))"
proof -
  have g: "fst (lock_seats (t0 - 540000) (uuids ''w'') ''E1'' [''A1'', ''F1''] ''X'' store_locked) =
     Inr (''2026-11-02T12:01:00.000Z'', 2)" by code_simp
  have i: "distinct (map (uuids ''w'') [0 ..< length [''A1'', ''F1'']])" by code_simp
  have c: "0 \<le> t0 - 540000" "t0 - 540000 \<le> t0 + 60000" "t0 + 60000 \<le> t0 - 540000 + 600000"
    "t0 - 540000 + 600000 < 253234080000000" by (simp_all add: t0_def)
  have "seat_locks store0 = []" by (simp add: store0_def)
  then have "reachable store0" by (rule reachable.start)
  then have r: "reachable store_locked" unfolding store_locked_origin by (rule reachable.acquire)
  have u: "locks_unique store_locked" by code_simp
  have h: "held (t0 + 60000) ''E1'' ''A1'' ''X'' store_locked" by code_simp
  have a: "\<not> attached ''E1'' ''A1'' store_locked" by code_simp
  have m: "''A1'' \<in> s_id ` set (seats store_locked)" by code_simp
  have e: "''X'' \<noteq> []" "''Y'' \<noteq> []" "''Y'' \<noteq> ''X''" "[''A1'', ''F1''] \<noteq> []"
    "''A1'' \<in> set [''A1'', ''F1'']" by simp_all
  have z: "int (length [''A1'', ''F1'']) + 4 \<le> SQLITE_MAX_VARIABLE_NUMBER" by code_simp
  have n: "0 \<le> t0 + 60000" by (simp add: t0_def)
  note v = store_locked_live(1)
  from one_lock_per_event_seat [where d = store_locked and e = "''E1''" and x = "''A1''"
      and now = "t0 + 60000" and uuid = "uuids ''w''" and ids = "[''A1'', ''F1'']"
      and s = "''X''" and s' = "''Y''" and em = "''x@example.org''" and nm = "''X''"
      and ph = None and r = "1 / 2" and qr = "Some ''qr''" and b = "''bx-0000''"
      and m = "''card''" and t = "t0 - 540000"
      and g = "(''2026-11-02T12:01:00.000Z'', 2)"] r u h a m e g i c z n v
  show ?thesis by blast
qed

text \<open>
  Claim C4: a lock request that fails with 409 grants nothing. The store it leaves is the
  store after the purge the request starts with: no lock row is added, and every lock
  the purge keeps, those of the requesting session included, is as it was.
\<close>

theorem lock_all_or_nothing:
  "fst (lock_seats now uuid e ids s d) = Inl (Conflict u) \<Longrightarrow>
     http_status (Conflict u) = 409 \<and>
     snd (lock_seats now uuid e ids s d) = cleanExpiredLocks now d \<and>
     seat_locks (snd (lock_seats now uuid e ids s d)) =
       filter (\<lambda>l. \<not> sl_expires_at l < datetime now) (seat_locks d) \<and>
     set (seat_locks (snd (lock_seats now uuid e ids s d))) \<subseteq> set (seat_locks d) \<and>
     filter (\<lambda>l. sl_event_id l = e \<and> sl_session_id l = s)
         (seat_locks (snd (lock_seats now uuid e ids s d))) =
       filter (\<lambda>l. \<not> sl_expires_at l < datetime now)
         (filter (\<lambda>l. sl_event_id l = e \<and> sl_session_id l = s) (seat_locks d))"
proof -
  assume c: "fst (lock_seats now uuid e ids s d) = Inl (Conflict u)"
  with lock_seats_cases [of now uuid e ids s d]
  have eq: "snd (lock_seats now uuid e ids s d) = cleanExpiredLocks now d" by auto
  have "filter (\<lambda>l. sl_event_id l = e \<and> sl_session_id l = s)
          (filter (\<lambda>l. \<not> sl_expires_at l < datetime now) (seat_locks d)) =
        filter (\<lambda>l. \<not> sl_expires_at l < datetime now)
          (filter (\<lambda>l. sl_event_id l = e \<and> sl_session_id l = s) (seat_locks d))"
    by (simp add: conj_commute)
  with eq show ?thesis by (simp add: cleanExpiredLocks_simps)
qed

theorem lock_all_or_nothing_witness:
  "fst (lock_seats (t0 + 60000) (uuids ''ly'') ''E1'' [''F1'', ''A1''] ''Y'' store_locked) =
     Inl (Conflict {#(''A1'', ''A'', 1, Some ''locked'')#}) \<and>
   snd (lock_seats (t0 + 60000) (uuids ''ly'') ''E1'' [''F1'', ''A1''] ''Y'' store_locked) =
     cleanExpiredLocks (t0 + 60000) store_locked \<and>
   set (seat_locks (snd (lock_seats (t0 + 60000) (uuids ''ly'') ''E1'' [''F1'', ''A1''] ''Y''
                           store_locked))) \<subseteq> set (seat_locks store_locked) \<and>
   filter (\<lambda>l. sl_event_id l = ''E1'' \<and> sl_session_id l = ''Y'')
     (seat_locks (snd (lock_seats (t0 + 60000) (uuids ''ly'') ''E1'' [''F1'', ''A1''] ''Y''
                         store_locked))) = []"
proof -
  have c: "fst (lock_seats (t0 + 60000) (uuids ''ly'') ''E1'' [''F1'', ''A1''] ''Y'' store_locked) =
     Inl (Conflict {#(''A1'', ''A'', 1, Some ''locked'')#})" by code_simp
  have n: "filter (\<lambda>l. \<not> sl_expires_at l < datetime (t0 + 60000))
         (filter (\<lambda>l. sl_event_id l = ''E1'' \<and> sl_session_id l = ''Y'') (seat_locks store_locked)) = []"
    by code_simp
  note T = lock_all_or_nothing [OF c]
  from T have 1: "snd (lock_seats (t0 + 60000) (uuids ''ly'') ''E1'' [''F1'', ''A1''] ''Y'' store_locked) =
     cleanExpiredLocks (t0 + 60000) store_locked" by blast
  from T have 2: "set (seat_locks (snd (lock_seats (t0 + 60000) (uuids ''ly'') ''E1'' [''F1'', ''A1''] ''Y''
                           store_locked))) \<subseteq> set (seat_locks store_locked)" by blast
  from T have "filter (\<lambda>l. sl_event_id l = ''E1'' \<and> sl_session_id l = ''Y'')
     (seat_locks (snd (lock_seats (t0 + 60000) (uuids ''ly'') ''E1'' [''F1'', ''A1''] ''Y''
                         store_locked))) =
     filter (\<lambda>l. \<not> sl_expires_at l < datetime (t0 + 60000))
         (filter (\<lambda>l. sl_event_id l = ''E1'' \<and> sl_session_id l = ''Y'') (seat_locks store_locked))"
    by blast
  from this n have 3: "filter (\<lambda>l. sl_event_id l = ''E1'' \<and> sl_session_id l = ''Y'')
     (seat_locks (snd (lock_seats (t0 + 60000) (uuids ''ly'') ''E1'' [''F1'', ''A1''] ''Y''
                         store_locked))) = []" by (rule trans)
  from c 1 2 3 show ?thesis by blast
qed

text \<open>
  Claim C10: the lock handler never looks a requested id up for its own sake. An id that
  is no row of \<^verbatim>\<open>seats\<close> is never listed as unavailable, a request of such ids only is
  always granted, and a granted request leaves a lock row for each requested id, in the
  \<^verbatim>\<open>seats\<close> table or not (the values of \<^verbatim>\<open>uuidv4()\<close> being distinct).
\<close>

theorem lock_ignores_seats_table:
  "(fst (lock_seats now uuid e ids s d) = Inl (Conflict u) \<and> x \<notin> s_id ` set (seats d) \<longrightarrow>
      x \<notin> fst ` set_mset u) \<and>
   (ids \<noteq> [] \<and> s \<noteq> [] \<and> set ids \<inter> s_id ` set (seats d) = {} \<longrightarrow>
      fst (lock_seats now uuid e ids s d) = Inr (toISOString (now + 600000), length ids)) \<and>
   (fst (lock_seats now uuid e ids s d) = Inr g \<and> x \<in> set ids \<and>
    distinct (map uuid [0 ..< length ids]) \<longrightarrow>
      (\<exists>l \<in> set (seat_locks (snd (lock_seats now uuid e ids s d))).
         sl_event_id l = e \<and> sl_seat_id l = x \<and> sl_session_id l = s \<and>
         sl_expires_at l = toISOString (now + 600000)))"
proof (intro conjI impI)
  assume "fst (lock_seats now uuid e ids s d) = Inl (Conflict u) \<and> x \<notin> s_id ` set (seats d)"
  with lock_seats_cases [of now uuid e ids s d]
  have u: "u = unavailable_query now e ids s (cleanExpiredLocks now d)"
    and x: "x \<notin> s_id ` set (seats (cleanExpiredLocks now d))"
    by (auto simp: cleanExpiredLocks_simps)
  have "fst ` set (unavailable_rows now e ids s (cleanExpiredLocks now d)) \<subseteq>
        s_id ` set (seats (cleanExpiredLocks now d))"
    unfolding unavailable_ids by blast
  with set_unavailable_query [of now e ids s "cleanExpiredLocks now d"] x
  show "x \<notin> fst ` set_mset u" unfolding u by blast
next
  assume a: "ids \<noteq> [] \<and> s \<noteq> [] \<and> set ids \<inter> s_id ` set (seats d) = {}"
  then have "unavailable_query now e ids s (cleanExpiredLocks now d) = {#}"
    by (subst lock_seats_granted_iff) auto
  with a show "fst (lock_seats now uuid e ids s d) = Inr (toISOString (now + 600000), length ids)"
    by (simp add: lock_seats_granted)
next
  assume a: "fst (lock_seats now uuid e ids s d) = Inr g \<and> x \<in> set ids \<and>
    distinct (map uuid [0 ..< length ids])"
  with lock_seats_cases [of now uuid e ids s d]
  have ok: "ids \<noteq> []" "s \<noteq> []" "unavailable_query now e ids s (cleanExpiredLocks now d) = {#}"
    by auto
  from a have "inj_on uuid {0 ..< 0 + length ids}" by (simp add: distinct_map)
  with a have "\<exists>r \<in> set (insert_locks uuid 0 e s (toISOString (now + 600000)) ids
              (seat_locks (delete_session_locks e s (cleanExpiredLocks now d)))).
          sl_event_id r = e \<and> sl_seat_id r = x \<and> sl_session_id r = s \<and>
          sl_expires_at r = toISOString (now + 600000)"
    by (intro insert_locks_inserts) simp_all
  then show "\<exists>l \<in> set (seat_locks (snd (lock_seats now uuid e ids s d))).
         sl_event_id l = e \<and> sl_seat_id l = x \<and> sl_session_id l = s \<and>
         sl_expires_at l = toISOString (now + 600000)"
    by (simp add: lock_seats_granted [OF ok])
qed

theorem lock_ignores_seats_table_witness:
  "''Z9'' \<notin> s_id ` set (seats store_locked) \<and>
   fst (lock_seats (t0 + 60000) (uuids ''lg'') ''E1'' [''Z9'', ''A1''] ''G'' store_locked) =
     Inl (Conflict {#(''A1'', ''A'', 1, Some ''locked'')#}) \<and>
   ''Z9'' \<notin> fst ` set_mset {#(''A1'', ''A'', 1 :: int, Some ''locked'')#} \<and>
   fst (lock_seats (t0 + 60000) (uuids ''lg'') ''E1'' [''Z9''] ''G'' store_locked) =
     Inr (toISOString (t0 + 60000 + 600000), length [''Z9'']) \<and>
   fst (lock_seats (t0 + 60000) (uuids ''lg'') ''E1'' [''Z9'', ''F1''] ''G'' store_locked) =
     Inr (''2026-11-02T12:11:00.000Z'', 2) \<and>
   distinct (map (uuids ''lg'') [0 ..< length [''Z9'', ''F1'']]) \<and>
   (\<exists>l \<in> set (seat_locks (snd (lock_seats (t0 + 60000) (uuids ''lg'') ''E1'' [''Z9'', ''F1''] ''G''
                                 store_locked))).
      sl_event_id l = ''E1'' \<and> sl_seat_id l = ''Z9'' \<and> sl_session_id l = ''G'' \<and>
      sl_expires_at l = toISOString (t0 + 60000 + 600000))"
proof -
  have z: "''Z9'' \<notin> s_id ` set (seats store_locked)" by code_simp
  have c: "fst (lock_seats (t0 + 60000) (uuids ''lg'') ''E1'' [''Z9'', ''A1''] ''G'' store_locked) =
     Inl (Conflict {#(''A1'', ''A'', 1, Some ''locked'')#})" by code_simp
  have o: "set [''Z9''] \<inter> s_id ` set (seats store_locked) = {}" by code_simp
  have g: "fst (lock_seats (t0 + 60000) (uuids ''lg'') ''E1'' [''Z9'', ''F1''] ''G'' store_locked) =
     Inr (''2026-11-02T12:11:00.000Z'', 2)" by code_simp
  have i: "distinct (map (uuids ''lg'') [0 ..< length [''Z9'', ''F1'']])" by code_simp
  from lock_ignores_seats_table [where d = store_locked and x = "''Z9''" and e = "''E1''"
      and now = "t0 + 60000" and uuid = "uuids ''lg''" and ids = "[''Z9'', ''A1'']" and s = "''G''"
      and u = "{#(''A1'', ''A'', 1, Some ''locked'')#}"] z c
  have 1: "''Z9'' \<notin> fst ` set_mset {#(''A1'', ''A'', 1 :: int, Some ''locked'')#}" by blast
  from lock_ignores_seats_table [where d = store_locked and e = "''E1''"
      and now = "t0 + 60000" and uuid = "uuids ''lg''" and ids = "[''Z9'']" and s = "''G''"] o
  have 2: "fst (lock_seats (t0 + 60000) (uuids ''lg'') ''E1'' [''Z9''] ''G'' store_locked) =
     Inr (toISOString (t0 + 60000 + 600000), length [''Z9''])" by simp
  from lock_ignores_seats_table [where d = store_locked and x = "''Z9''" and e = "''E1''"
      and now = "t0 + 60000" and uuid = "uuids ''lg''" and ids = "[''Z9'', ''F1'']" and s = "''G''"
      and g = "(''2026-11-02T12:11:00.000Z'', 2)"] g i
  have 3: "\<exists>l \<in> set (seat_locks (snd (lock_seats (t0 + 60000) (uuids ''lg'') ''E1'' [''Z9'', ''F1''] ''G''
                                 store_locked))).
      sl_event_id l = ''E1'' \<and> sl_seat_id l = ''Z9'' \<and> sl_session_id l = ''G'' \<and>
      sl_expires_at l = toISOString (t0 + 60000 + 600000)" by simp
  from z c 1 2 g i 3 show ?thesis by blast
qed

section \<open>Claims on the seat view\<close>

lemma in_seats_query:
  "v \<in> set (seats_query e venue d) \<longleftrightarrow>
     (\<exists>s bs sl.
        ((s, bs), sl) \<in> set (left_join
           (left_join (seats d) (booking_seats d)
              (\<lambda>s bs. s_id s = bs_seat_id bs \<and> bs_booking_id bs \<in> set (confirmed_bookings e d)))
           (seat_locks d) (\<lambda>(s, bs) sl. s_id s = sl_seat_id sl \<and> sl_event_id sl = e)) \<and>
        s_venue_id s = venue \<and>
        v = \<lparr>v_seat = s,
             v_status = (if not_null bs then ''booked''
                         else if not_null sl then ''locked'' else ''available''),
             v_locked_by = map_option sl_session_id sl,
             v_lock_expires = map_option sl_expires_at sl\<rparr>)"
  unfolding seats_query_def Let_def by force

lemma seats_query_row:
  assumes "v \<in> set (seats_query e venue d)"
  shows "v_seat v \<in> set (seats d) \<and> s_venue_id (v_seat v) = venue \<and>
         v_status v =
           (if attached e (s_id (v_seat v)) d then ''booked''
            else if (\<exists>l \<in> set (seat_locks d). s_id (v_seat v) = sl_seat_id l \<and> sl_event_id l = e)
            then ''locked'' else ''available'')"
proof -
  let ?on1 = "\<lambda>s bs. s_id s = bs_seat_id bs \<and> bs_booking_id bs \<in> set (confirmed_bookings e d)"
  let ?on2 = "\<lambda>(s, bs) sl. s_id s = sl_seat_id sl \<and> sl_event_id sl = e"
  let ?j1 = "left_join (seats d) (booking_seats d) ?on1"
  from assms obtain s bs sl where
    row: "((s, bs), sl) \<in> set (left_join ?j1 (seat_locks d) ?on2)" and
    venue: "s_venue_id s = venue" and
    v: "v = \<lparr>v_seat = s,
             v_status = (if not_null bs then ''booked''
                         else if not_null sl then ''locked'' else ''available''),
             v_locked_by = map_option sl_session_id sl,
             v_lock_expires = map_option sl_expires_at sl\<rparr>"
    unfolding in_seats_query by blast
  from row have j1: "(s, bs) \<in> set ?j1" by (simp add: in_left_join)
  then have seat: "s \<in> set (seats d)" by (simp add: in_left_join)
  have bk: "not_null bs \<longleftrightarrow> attached e (s_id s) d" using j1 by (rule join_booking_seats)
  have lk: "not_null sl \<longleftrightarrow> (\<exists>l \<in> set (seat_locks d). s_id s = sl_seat_id l \<and> sl_event_id l = e)"
    using row by (cases sl) (auto simp: in_left_join not_null_def)
  from seat venue bk lk show ?thesis unfolding v by simp
qed

lemma seats_query_total:
  assumes "s \<in> set (seats d)" "s_venue_id s = venue"
  shows "\<exists>v \<in> set (seats_query e venue d). v_seat v = s"
proof -
  let ?on1 = "\<lambda>s bs. s_id s = bs_seat_id bs \<and> bs_booking_id bs \<in> set (confirmed_bookings e d)"
  let ?on2 = "\<lambda>(s, bs) sl. s_id s = sl_seat_id sl \<and> sl_event_id sl = e"
  let ?j1 = "left_join (seats d) (booking_seats d) ?on1"
  from assms(1) obtain bs where "(s, bs) \<in> set ?j1" using left_join_total by fast
  then obtain sl where "((s, bs), sl) \<in> set (left_join ?j1 (seat_locks d) ?on2)"
    using left_join_total by fast
  with assms(2) have "\<lparr>v_seat = s,
             v_status = (if not_null bs then ''booked''
                         else if not_null sl then ''locked'' else ''available''),
             v_locked_by = map_option sl_session_id sl,
             v_lock_expires = map_option sl_expires_at sl\<rparr> \<in> set (seats_query e venue d)"
    unfolding in_seats_query by blast
  then show ?thesis by force
qed

lemma get_seats_answer:
  assumes "get_seats now e d = (Inr (vs, byRow), d')"
  shows "\<exists>ev. find (\<lambda>ev. e_id ev = e) (events d) = Some ev \<and> d' = cleanExpiredLocks now d \<and>
              vs = seats_query e (e_venue_id ev) (cleanExpiredLocks now d) \<and> byRow = seatsByRow vs"
  using assms by (auto simp: get_seats_def Let_def split: option.splits)

text \<open>
  What the seat view answers: a row for every seat of the venue of the event and rows for
  no other seat; a row is \<^verbatim>\<open>booked\<close> exactly when its seat is attached to a confirmed
  booking of the event, otherwise \<^verbatim>\<open>locked\<close> exactly when the purge has left a lock row
  of the event on the seat, otherwise \<^verbatim>\<open>available\<close>.
\<close>

lemma seat_view_rows:
  assumes "get_seats now e d = (Inr (vs, byRow), d')"
  shows "\<exists>ev. find (\<lambda>ev. e_id ev = e) (events d) = Some ev \<and>
     (\<forall>s \<in> set (seats d). s_venue_id s = e_venue_id ev \<longrightarrow> (\<exists>v \<in> set vs. v_seat v = s)) \<and>
     (\<forall>v \<in> set vs.
        v_seat v \<in> set (seats d) \<and> s_venue_id (v_seat v) = e_venue_id ev \<and>
        v_status v =
          (if attached e (s_id (v_seat v)) d then ''booked''
           else if (\<exists>l \<in> set (seat_locks (cleanExpiredLocks now d)).
                      s_id (v_seat v) = sl_seat_id l \<and> sl_event_id l = e)
           then ''locked'' else ''available''))"
proof -
  from get_seats_answer [OF assms] obtain ev where
    ev: "find (\<lambda>ev. e_id ev = e) (events d) = Some ev" and
    vs: "vs = seats_query e (e_venue_id ev) (cleanExpiredLocks now d)" by blast
  have total: "\<forall>s \<in> set (seats d). s_venue_id s = e_venue_id ev \<longrightarrow> (\<exists>v \<in> set vs. v_seat v = s)"
    unfolding vs using seats_query_total [of _ "cleanExpiredLocks now d"]
    by (simp add: cleanExpiredLocks_simps)
  have rows: "v_seat v \<in> set (seats d) \<and> s_venue_id (v_seat v) = e_venue_id ev \<and>
        v_status v =
          (if attached e (s_id (v_seat v)) d then ''booked''
           else if (\<exists>l \<in> set (seat_locks (cleanExpiredLocks now d)).
                      s_id (v_seat v) = sl_seat_id l \<and> sl_event_id l = e)
           then ''locked'' else ''available'')"
    if "v \<in> set vs" for v
    using seats_query_row [of v e "e_venue_id ev" "cleanExpiredLocks now d"] that
    unfolding vs
    by (simp add: attached_cleanExpiredLocks cleanExpiredLocks_simps(1))
  from ev total rows show ?thesis by blast
qed

text \<open>
  Claim C5: the seat view reports a seat as \<^verbatim>\<open>locked\<close> exactly when a live (non-expired)
  lock of the event is on it, unless the seat is booked. The query of the view has no
  test of the expiry: it shows every lock row the purge has left, and the purge compares
  the stored text \<^verbatim>\<open>2026-11-02T12:10:00.000Z\<close> with \<^verbatim>\<open>datetime('now')\<close>, the same
  comparison as in claim C2. Here the locks of X on A1 and A2 expired at 12:10, the view
  is asked at 12:20, and both seats are reported as \<^verbatim>\<open>locked\<close> with the expiry that has
  passed.
\<close>

theorem expired_lock_is_shown_locked:
  "store_locked = snd (lock_seats t0 (uuids ''lx'') ''E1'' [''A1'', ''A2''] ''X'' store0) \<and>
   map (\<lambda>l. (sl_seat_id l, sl_expires_at l)) (seat_locks store_locked) =
     [(''A1'', ''2026-11-02T12:10:00.000Z''), (''A2'', ''2026-11-02T12:10:00.000Z'')] \<and>
   toISOString (t0 + 600000) = ''2026-11-02T12:10:00.000Z'' \<and>
   toISOString (t0 + 1200000) = ''2026-11-02T12:20:00.000Z'' \<and>
   bookings store_locked = [] \<and>
   get_seats (t0 + 1200000) ''E1'' store_locked =
     (Inr (seats_query ''E1'' ''V1'' store_locked,
           seatsByRow (seats_query ''E1'' ''V1'' store_locked)),
      store_locked) \<and>
   map (\<lambda>v. (s_id (v_seat v), v_status v, v_lock_expires v))
       (seats_query ''E1'' ''V1'' store_locked) =
     [(''A1'', ''locked'', Some ''2026-11-02T12:10:00.000Z''),
      (''A2'', ''locked'', Some ''2026-11-02T12:10:00.000Z''),
      (''B1'', ''available'', None), (''C1'', ''available'', None),
      (''F1'', ''available'', None)]"
  by code_simp
section \<open>Claims on the booking handler\<close>

lemma foldl_total:
  "foldl (\<lambda>t (seatId, price). t + price) z sp = z + sum_list (map snd sp)"
  for z :: real
  by (induction sp arbitrary: z) (auto simp: case_prod_beta)

lemma insert_row_rows: "r \<in> set (insert_row key x t) \<Longrightarrow> r \<in> set t \<or> r = x"
  by (auto simp: insert_row_def split: if_splits)

lemma insert_row_mono: "r \<in> set t \<Longrightarrow> r \<in> set (insert_row key x t)"
  by (simp add: insert_row_def)

lemma insert_row_fresh: "key x \<notin> key ` set t \<Longrightarrow> insert_row key x t = t @ [x]"
  by (simp add: insert_row_def)

lemma insert_row_keys: "key ` set (insert_row key x t) \<subseteq> insert (key x) (key ` set t)"
  by (auto simp: insert_row_def)

lemma insert_booking_seats_rows:
  "r \<in> set (insert_booking_seats uuid k bid sp t) \<Longrightarrow>
     r \<in> set t \<or> (bs_booking_id r = bid \<and> (bs_seat_id r, bs_price r) \<in> set sp)"
proof (induction sp arbitrary: k t)
  case Nil
  then show ?case by simp
next
  case (Cons a sp)
  obtain seatId price where a: "a = (seatId, price)" by (cases a)
  let ?new = "\<lparr>bs_id = uuid k, bs_booking_id = bid, bs_seat_id = seatId, bs_price = price\<rparr>"
  from Cons.prems a
  have "r \<in> set (insert_booking_seats uuid (Suc k) bid sp (insert_row bs_id ?new t))" by simp
  from Cons.IH [OF this] show ?case
  proof
    assume "r \<in> set (insert_row bs_id ?new t)"
    then have "r \<in> set t \<or> r = ?new" by (rule insert_row_rows)
    with a show ?thesis by auto
  next
    assume "bs_booking_id r = bid \<and> (bs_seat_id r, bs_price r) \<in> set sp"
    then show ?thesis by simp
  qed
qed

lemma insert_booking_seats_mono:
  "r \<in> set t \<Longrightarrow> r \<in> set (insert_booking_seats uuid k bid sp t)"
proof (induction sp arbitrary: k t)
  case Nil
  then show ?case by simp
next
  case (Cons a sp)
  obtain seatId price where a: "a = (seatId, price)" by (cases a)
  from Cons.prems have "r \<in> set (insert_row bs_id
      \<lparr>bs_id = uuid k, bs_booking_id = bid, bs_seat_id = seatId, bs_price = price\<rparr> t)"
    by (rule insert_row_mono)
  from Cons.IH [OF this] a show ?case by simp
qed

lemma insert_booking_seats_inserts:
  assumes "(seatId, price) \<in> set sp"
    and "inj_on uuid {k ..< k + length sp}"
    and "uuid ` {k ..< k + length sp} \<inter> bs_id ` set t = {}"
  shows "\<exists>r \<in> set (insert_booking_seats uuid k bid sp t).
           bs_booking_id r = bid \<and> bs_seat_id r = seatId \<and> bs_price r = price"
  using assms
proof (induction sp arbitrary: k t)
  case Nil
  then show ?case by simp
next
  case (Cons a sp)
  obtain seatId' price' where a: "a = (seatId', price')" by (cases a)
  let ?new = "\<lparr>bs_id = uuid k, bs_booking_id = bid, bs_seat_id = seatId', bs_price = price'\<rparr>"
  let ?t = "insert_row bs_id ?new t"
  have k: "k \<in> {k ..< k + length (a # sp)}" by simp
  have sub: "{Suc k ..< Suc k + length sp} \<subseteq> {k ..< k + length (a # sp)}" by auto
  from k Cons.prems(3) have "uuid k \<notin> bs_id ` set t" by blast
  then have t: "?t = t @ [?new]" by (simp add: insert_row_fresh)
  show ?case
  proof (cases "(seatId, price) \<in> set sp")
    case True
    have inj: "inj_on uuid {Suc k ..< Suc k + length sp}"
      using Cons.prems(2) sub by (rule inj_on_subset)
    have f: "uuid ` {Suc k ..< Suc k + length sp} \<inter> bs_id ` set ?t = {}"
    proof -
      have "uuid j \<notin> bs_id ` set ?t" if j: "j \<in> {Suc k ..< Suc k + length sp}" for j
      proof -
        from j sub have j': "j \<in> {k ..< k + length (a # sp)}" by blast
        with Cons.prems(3) have 1: "uuid j \<notin> bs_id ` set t" by blast
        have "uuid j \<noteq> uuid k"
        proof
          assume "uuid j = uuid k"
          with Cons.prems(2) j' k have "j = k" by (simp add: inj_on_def)
          with j show False by simp
        qed
        with 1 show ?thesis unfolding t by auto
      qed
      then show ?thesis by blast
    qed
    from Cons.IH [OF True inj f] a show ?thesis by simp
  next
    case False
    with Cons.prems(1) a have "seatId' = seatId" "price' = price" by simp_all
    then have new: "bs_booking_id ?new = bid \<and> bs_seat_id ?new = seatId \<and> bs_price ?new = price"
      by simp
    have "?new \<in> set ?t" unfolding t by simp
    then have "?new \<in> set (insert_booking_seats uuid (Suc k) bid sp ?t)"
      by (rule insert_booking_seats_mono)
    then have "?new \<in> set (insert_booking_seats uuid k bid (a # sp) t)" using a by simp
    with new show ?thesis by blast
  qed
qed

text \<open>
  When the statement that reads the locks of the session is refused, the handler sees
  no lock; a request that passes the test of the locks is therefore short enough for the
  statement that reads the seats.
\<close>

lemma session_locks_thrown:
  "SQLITE_MAX_VARIABLE_NUMBER < int (length ids) + 2 \<Longrightarrow> session_locks now e ids s d = []"
  by (simp add: session_locks_def selectQuery_simps)

lemma lock_gate_bound:
  assumes "length (session_locks now e ids s d) = length ids"
  shows "int (length ids) + 2 \<le> SQLITE_MAX_VARIABLE_NUMBER"
proof (rule ccontr)
  assume "\<not> int (length ids) + 2 \<le> SQLITE_MAX_VARIABLE_NUMBER"
  then have big: "SQLITE_MAX_VARIABLE_NUMBER < int (length ids) + 2" by simp
  then have "session_locks now e ids s d = []" by (rule session_locks_thrown)
  with assms have "length ids = 0" by simp
  with big show False by (simp add: SQLITE_MAX_VARIABLE_NUMBER_def)
qed

text \<open>The four ways the booking handler can end.\<close>

lemma create_booking_cases:
  "create_booking now uuid e ids s em nm ph d =
     (Inl (ValidationError ''Missing required fields''), d) \<and>
     (e = [] \<or> s = [] \<or> em = [] \<or> nm = []) \<or>
   create_booking now uuid e ids s em nm ph d = (Inl LockExpired, d) \<and>
     e \<noteq> [] \<and> s \<noteq> [] \<and> em \<noteq> [] \<and> nm \<noteq> [] \<and>
     length (session_locks now e ids s d) \<noteq> length ids \<or>
   create_booking now uuid e ids s em nm ph d = (Inl (NotFound ''Event not found''), d) \<and>
     e \<noteq> [] \<and> s \<noteq> [] \<and> em \<noteq> [] \<and> nm \<noteq> [] \<and>
     length (session_locks now e ids s d) = length ids \<and>
     find (\<lambda>ev. e_id ev = e) (events d) = None \<or>
   (\<exists>ev. find (\<lambda>ev. e_id ev = e) (events d) = Some ev \<and>
      e \<noteq> [] \<and> s \<noteq> [] \<and> em \<noteq> [] \<and> nm \<noteq> [] \<and>
      length (session_locks now e ids s d) = length ids \<and>
      create_booking now uuid e ids s em nm ph d =
        (Inr (uuid 0,
              sum_list (map (seat_price ev) (filter (\<lambda>x. s_id x \<in> set ids) (seats d))),
              length (filter (\<lambda>x. s_id x \<in> set ids) (seats d))),
         delete_session_locks e s
           (d\<lparr>bookings := insert_row b_id
                 \<lparr>b_id = uuid 0, b_event_id = e, b_user_email = em, b_user_name = nm,
                  b_user_phone = (if ph = Some [] then None else ph),
                  b_total_amount =
                    sum_list (map (seat_price ev) (filter (\<lambda>x. s_id x \<in> set ids) (seats d))),
                  b_status = ''pending'', b_qr_code = None\<rparr> (bookings d),
              booking_seats := insert_booking_seats uuid 1 (uuid 0)
                 (map (\<lambda>x. (s_id x, seat_price ev x)) (filter (\<lambda>x. s_id x \<in> set ids) (seats d)))
                 (booking_seats d)\<rparr>)))"
proof (cases "e = [] \<or> s = [] \<or> em = [] \<or> nm = []")
  case True
  then show ?thesis by (simp add: create_booking_def)
next
  case valid: False
  show ?thesis
  proof (cases "length (session_locks now e ids s d) = length ids")
    case False
    with valid show ?thesis by (simp add: create_booking_def)
  next
    case gate: True
    show ?thesis
    proof (cases "find (\<lambda>ev. e_id ev = e) (events d)")
      case None
      with valid gate show ?thesis by (simp add: create_booking_def)
    next
      case (Some ev)
      from gate have "int (length ids) + 2 \<le> SQLITE_MAX_VARIABLE_NUMBER"
        by (rule lock_gate_bound)
      then have "selectQuery (int (length ids)) (filter (\<lambda>x. s_id x \<in> set ids) (seats d)) =
                   filter (\<lambda>x. s_id x \<in> set ids) (seats d)"
        by (simp add: selectQuery_simps)
      with Some valid gate show ?thesis
        by (simp add: create_booking_def Let_def foldl_total comp_def)
    qed
  qed
qed

lemma session_locks_card:
  assumes "locks_unique d" "int (length ids) + 2 \<le> SQLITE_MAX_VARIABLE_NUMBER"
  shows "length (session_locks now e ids s d) = card {x \<in> set ids. held now e x s d}"
proof -
  let ?P = "\<lambda>l. sl_event_id l = e \<and> sl_session_id l = s \<and> sl_seat_id l \<in> set ids \<and>
                datetime now < sl_expires_at l"
  let ?L = "filter ?P (seat_locks d)"
  from assms(1) have "distinct (map (\<lambda>l. (sl_event_id l, sl_seat_id l)) ?L)"
    unfolding locks_unique_def by (rule distinct_map_filter)
  then have dL: "distinct ?L" and inj: "inj_on (\<lambda>l. (sl_event_id l, sl_seat_id l)) (set ?L)"
    by (simp_all add: distinct_map)
  have "inj_on sl_seat_id (set ?L)"
  proof (rule inj_onI)
    fix l l' assume l: "l \<in> set ?L" "l' \<in> set ?L" "sl_seat_id l = sl_seat_id l'"
    then have "(sl_event_id l, sl_seat_id l) = (sl_event_id l', sl_seat_id l')" by simp
    with inj l(1,2) show "l = l'" unfolding inj_on_def by blast
  qed
  with dL have "distinct (map sl_seat_id ?L)" by (simp add: distinct_map)
  then have "card (set (map sl_seat_id ?L)) = length (map sl_seat_id ?L)"
    by (rule distinct_card)
  then have "length (map sl_seat_id ?L) = card (set (map sl_seat_id ?L))" ..
  moreover have "set (map sl_seat_id ?L) = {x \<in> set ids. held now e x s d}"
    by (auto simp: held_def list_ex_iff)
  ultimately show ?thesis using assms(2) by (simp add: session_locks_def selectQuery_simps)
qed

lemma lock_gate_iff:
  assumes "locks_unique d"
  shows "length (session_locks now e ids s d) = length ids \<longleftrightarrow>
           int (length ids) + 2 \<le> SQLITE_MAX_VARIABLE_NUMBER \<and> distinct ids \<and>
           list_all (\<lambda>x. held now e x s d) ids"
proof (cases "int (length ids) + 2 \<le> SQLITE_MAX_VARIABLE_NUMBER")
  case False
  with lock_gate_bound [of now e ids s d] show ?thesis by blast
next
  case True
  let ?H = "{x \<in> set ids. held now e x s d}"
  have len: "length (session_locks now e ids s d) = card ?H"
    using assms True by (rule session_locks_card)
  have sub: "?H \<subseteq> set ids" by blast
  then have le: "card ?H \<le> card (set ids)" by (simp add: card_mono)
  have le': "card (set ids) \<le> length ids" by (rule card_length)
  have "length (session_locks now e ids s d) = length ids \<longleftrightarrow>
          distinct ids \<and> list_all (\<lambda>x. held now e x s d) ids"
  proof
    assume eq: "length (session_locks now e ids s d) = length ids"
    with len le le' have c: "card (set ids) = length ids" "card ?H = card (set ids)" by simp_all
    from c(1) have "distinct ids" by (rule card_distinct)
    moreover from sub c(2) have "?H = set ids" by (simp add: card_subset_eq)
    then have "list_all (\<lambda>x. held now e x s d) ids" by (auto simp: list_all_iff)
    ultimately show "distinct ids \<and> list_all (\<lambda>x. held now e x s d) ids" ..
  next
    assume a: "distinct ids \<and> list_all (\<lambda>x. held now e x s d) ids"
    then have "?H = set ids" by (auto simp: list_all_iff)
    with a len show "length (session_locks now e ids s d) = length ids"
      by (simp add: distinct_card)
  qed
  with True show ?thesis by simp
qed

text \<open>
  Claim C7, as stated: the booking goes ahead exactly when every requested seat has a
  live lock of the session. The handler compares the number of lock rows it finds with
  the number of requested ids, so a request that names a seat twice is refused although
  the lock of the session on the seat is live.
\<close>

theorem repeated_seat_is_refused:
  "list_all (\<lambda>x. live_lock (t0 + 60000) ''E1'' x ''X'' store_locked) [''A1'', ''A1''] \<and>
   create_booking (t0 + 60000) (uuids ''bx'') ''E1'' [''A1'', ''A1''] ''X'' ''x@example.org''
     ''X'' None store_locked = (Inl LockExpired, store_locked)"
proof -
  have "create_booking (t0 + 60000) (uuids ''bx'') ''E1'' [''A1'', ''A1''] ''X'' ''x@example.org''
     ''X'' None store_locked = (Inl LockExpired, store_locked)" by code_simp
  with store_locked_live(1) show ?thesis by simp
qed

text \<open>
  Claim C7, amended: when some requested seat has no lock of the session for the event,
  or the request names a seat twice, the handler answers 409 and leaves the store as it
  is, so no booking is created. When the requested ids are without repetition (and at
  most 32764) and every one of them has a live lock of the session for the event, the
  handler does not answer so, and when moreover the event exists (and the id of the
  booking is new) a pending booking is written. Live means that the expiry of the lock
  has not passed (clock readings before the year 9994); nothing is said of a request for
  a seat whose lock has expired.
\<close>

theorem booking_lock_gate:
  assumes "locks_unique d" "e \<noteq> []" "s \<noteq> []" "em \<noteq> []" "nm \<noteq> []"
  shows
   "(\<not> list_all (\<lambda>x. owned_lock e x s d) ids \<longrightarrow>
       create_booking now uuid e ids s em nm ph d = (Inl LockExpired, d) \<and>
       http_status LockExpired = 409) \<and>
    (\<not> distinct ids \<longrightarrow>
       create_booking now uuid e ids s em nm ph d = (Inl LockExpired, d)) \<and>
    (distinct ids \<and> int (length ids) + 2 \<le> SQLITE_MAX_VARIABLE_NUMBER \<and> 0 \<le> now \<and>
     list_all (\<lambda>x. live_lock now e x s d) ids \<longrightarrow>
       fst (create_booking now uuid e ids s em nm ph d) \<noteq> Inl LockExpired) \<and>
    (distinct ids \<and> int (length ids) + 2 \<le> SQLITE_MAX_VARIABLE_NUMBER \<and> 0 \<le> now \<and>
     list_all (\<lambda>x. live_lock now e x s d) ids \<and>
     find (\<lambda>ev. e_id ev = e) (events d) = Some ev \<and> uuid 0 \<notin> b_id ` set (bookings d) \<longrightarrow>
       (\<exists>g. fst (create_booking now uuid e ids s em nm ph d) = Inr g) \<and>
       (\<exists>b \<in> set (bookings (snd (create_booking now uuid e ids s em nm ph d))).
          b_id b = uuid 0 \<and> b_event_id b = e \<and> b_status b = ''pending''))"
proof -
  note gate = lock_gate_iff [OF assms(1), of now e ids s]
  note cases = create_booking_cases [of now uuid e ids s em nm ph d]
  have refuse: "create_booking now uuid e ids s em nm ph d = (Inl LockExpired, d)"
    if "length (session_locks now e ids s d) \<noteq> length ids"
    using that assms(2-) by (simp add: create_booking_def)
  have 1: "create_booking now uuid e ids s em nm ph d = (Inl LockExpired, d)"
    if "\<not> list_all (\<lambda>x. owned_lock e x s d) ids"
  proof -
    from that have "\<not> list_all (\<lambda>x. held now e x s d) ids"
      by (auto simp: list_all_iff dest: held_owned_lock)
    with gate have "length (session_locks now e ids s d) \<noteq> length ids" by simp
    then show ?thesis by (rule refuse)
  qed
  have 2: "create_booking now uuid e ids s em nm ph d = (Inl LockExpired, d)"
    if "\<not> distinct ids"
  proof -
    from that gate have "length (session_locks now e ids s d) \<noteq> length ids" by simp
    then show ?thesis by (rule refuse)
  qed
  have pass: "length (session_locks now e ids s d) = length ids"
    if "distinct ids" "int (length ids) + 2 \<le> SQLITE_MAX_VARIABLE_NUMBER" "0 \<le> now"
      "list_all (\<lambda>x. live_lock now e x s d) ids"
  proof -
    from that(3,4) have "list_all (\<lambda>x. held now e x s d) ids"
      by (auto simp: list_all_iff intro: live_lock_held)
    with that(1,2) gate show ?thesis by simp
  qed
  have 3: "fst (create_booking now uuid e ids s em nm ph d) \<noteq> Inl LockExpired"
    if "distinct ids" "int (length ids) + 2 \<le> SQLITE_MAX_VARIABLE_NUMBER" "0 \<le> now"
      "list_all (\<lambda>x. live_lock now e x s d) ids"
  proof -
    from that have "length (session_locks now e ids s d) = length ids" by (rule pass)
    with cases assms(2-) show ?thesis by auto
  qed
  have 4: "(\<exists>g. fst (create_booking now uuid e ids s em nm ph d) = Inr g) \<and>
       (\<exists>b \<in> set (bookings (snd (create_booking now uuid e ids s em nm ph d))).
          b_id b = uuid 0 \<and> b_event_id b = e \<and> b_status b = ''pending'')"
    if "distinct ids" "int (length ids) + 2 \<le> SQLITE_MAX_VARIABLE_NUMBER" "0 \<le> now"
      "list_all (\<lambda>x. live_lock now e x s d) ids"
      "find (\<lambda>ev. e_id ev = e) (events d) = Some ev" "uuid 0 \<notin> b_id ` set (bookings d)"
  proof -
    from that(1-4) have "length (session_locks now e ids s d) = length ids" by (rule pass)
    with cases that(5) assms(2-) have
      "create_booking now uuid e ids s em nm ph d =
        (Inr (uuid 0,
              sum_list (map (seat_price ev) (filter (\<lambda>x. s_id x \<in> set ids) (seats d))),
              length (filter (\<lambda>x. s_id x \<in> set ids) (seats d))),
         delete_session_locks e s
           (d\<lparr>bookings := insert_row b_id
                 \<lparr>b_id = uuid 0, b_event_id = e, b_user_email = em, b_user_name = nm,
                  b_user_phone = (if ph = Some [] then None else ph),
                  b_total_amount =
                    sum_list (map (seat_price ev) (filter (\<lambda>x. s_id x \<in> set ids) (seats d))),
                  b_status = ''pending'', b_qr_code = None\<rparr> (bookings d),
              booking_seats := insert_booking_seats uuid 1 (uuid 0)
                 (map (\<lambda>x. (s_id x, seat_price ev x)) (filter (\<lambda>x. s_id x \<in> set ids) (seats d)))
                 (booking_seats d)\<rparr>))"
      by auto
    with that(6) show ?thesis
      by (simp add: insert_row_fresh delete_session_locks_def)
  qed
  have 5: "http_status LockExpired = 409" by simp
  from 1 2 3 4 5 show ?thesis by blast
qed

theorem booking_lock_gate_witness:
  "locks_unique store_locked \<and>
   \<not> list_all (\<lambda>x. owned_lock ''E1'' x ''X'' store_locked) [''A1'', ''F1''] \<and>
   create_booking (t0 + 60000) (uuids ''bx'') ''E1'' [''A1'', ''F1''] ''X'' ''x@example.org'' ''X''
     None store_locked = (Inl LockExpired, store_locked) \<and>
   \<not> distinct [''A2'', ''A1'', ''A2''] \<and>
   create_booking (t0 + 60000) (uuids ''bx'') ''E1'' [''A2'', ''A1'', ''A2''] ''X''
     ''x@example.org'' ''X'' None store_locked = (Inl LockExpired, store_locked) \<and>
   distinct [''A1'', ''A2''] \<and>
   int (length [''A1'', ''A2'']) + 2 \<le> SQLITE_MAX_VARIABLE_NUMBER \<and>
   list_all (\<lambda>x. live_lock (t0 + 60000) ''E1'' x ''X'' store_locked) [''A1'', ''A2''] \<and>
   find (\<lambda>ev. e_id ev = ''E1'') (events store_locked) = Some rock_night \<and>
   uuids ''bx'' 0 \<notin> b_id ` set (bookings store_locked) \<and>
   fst (create_booking (t0 + 60000) (uuids ''bx'') ''E1'' [''A1'', ''A2''] ''X'' ''x@example.org''
          ''X'' None store_locked) \<noteq> Inl LockExpired \<and>
   (\<exists>b \<in> set (bookings (snd (create_booking (t0 + 60000) (uuids ''bx'') ''E1'' [''A1'', ''A2'']
                                 ''X'' ''x@example.org'' ''X'' None store_locked))).
      b_id b = uuids ''bx'' 0 \<and> b_event_id b = ''E1'' \<and> b_status b = ''pending'')"
proof -
  have u: "locks_unique store_locked" by code_simp
  have n: "''E1'' \<noteq> []" "''X'' \<noteq> []" "''x@example.org'' \<noteq> []" by simp_all
  have h1: "\<not> list_all (\<lambda>x. owned_lock ''E1'' x ''X'' store_locked) [''A1'', ''F1'']"
    by code_simp
  have r: "\<not> distinct [''A2'', ''A1'', ''A2'']" by simp
  have h2: "list_all (\<lambda>x. live_lock (t0 + 60000) ''E1'' x ''X'' store_locked) [''A1'', ''A2'']"
    using store_locked_live by simp
  have d: "distinct [''A1'', ''A2'']" by simp
  have z: "int (length [''A1'', ''A2'']) + 2 \<le> SQLITE_MAX_VARIABLE_NUMBER" by code_simp
  have t: "0 \<le> t0 + 60000" by (simp add: t0_def)
  have e: "find (\<lambda>ev. e_id ev = ''E1'') (events store_locked) = Some rock_night" by code_simp
  have f: "uuids ''bx'' 0 \<notin> b_id ` set (bookings store_locked)" by code_simp
  from booking_lock_gate [OF u n(1) n(2) n(3) n(2), of "[''A1'', ''F1'']" "t0 + 60000"
      "uuids ''bx''" None] h1
  have 1: "create_booking (t0 + 60000) (uuids ''bx'') ''E1'' [''A1'', ''F1''] ''X'' ''x@example.org''
      ''X'' None store_locked = (Inl LockExpired, store_locked)" by blast
  from booking_lock_gate [OF u n(1) n(2) n(3) n(2), of "[''A2'', ''A1'', ''A2'']" "t0 + 60000"
      "uuids ''bx''" None] r
  have 2: "create_booking (t0 + 60000) (uuids ''bx'') ''E1'' [''A2'', ''A1'', ''A2''] ''X''
      ''x@example.org'' ''X'' None store_locked = (Inl LockExpired, store_locked)" by blast
  from booking_lock_gate [OF u n(1) n(2) n(3) n(2), of "[''A1'', ''A2'']" "t0 + 60000"
      "uuids ''bx''" None rock_night] h2 d z t e f
  have 3: "fst (create_booking (t0 + 60000) (uuids ''bx'') ''E1'' [''A1'', ''A2''] ''X''
      ''x@example.org'' ''X'' None store_locked) \<noteq> Inl LockExpired \<and>
   (\<exists>b \<in> set (bookings (snd (create_booking (t0 + 60000) (uuids ''bx'') ''E1'' [''A1'', ''A2'']
                                 ''X'' ''x@example.org'' ''X'' None store_locked))).
      b_id b = uuids ''bx'' 0 \<and> b_event_id b = ''E1'' \<and> b_status b = ''pending'')" by blast
  from u h1 1 r 2 d z h2 e f 3 show ?thesis by blast
qed

text \<open>
  Claim C6, as stated: a VIP seat costs the VIP price of the event when one is set. The
  handler writes \<^verbatim>\<open>event.vip_price || event.base_price * 2\<close>, and \<^verbatim>\<open>||\<close> takes the
  right-hand side for the price 0 as well as for \<^verbatim>\<open>null\<close>: on the event whose VIP
  price is set to 0 the seat A1 is charged twice the base price.
\<close>

theorem zero_tier_price_is_replaced:
  "e_vip_price free_vip_event = Some 0 \<and>
   spec_price free_vip_event
     \<lparr>s_id = ''A1'', s_venue_id = ''V1'', s_row_label = ''A'', s_seat_number = 1, s_tier = ''vip''\<rparr>
     = 0 \<and>
   seat_price free_vip_event
     \<lparr>s_id = ''A1'', s_venue_id = ''V1'', s_row_label = ''A'', s_seat_number = 1, s_tier = ''vip''\<rparr>
     = 100 \<and>
   fst (create_booking (t0 + 60000) (uuids ''bf'') ''E3'' [''A1''] ''X'' ''x@example.org'' ''X'' None
          (snd (lock_seats t0 (uuids ''lf'') ''E3'' [''A1''] ''X'' store0))) =
     Inr (''bf-0000'', 100, 1)"
  by code_simp

text \<open>
  Claim C6, amended: a VIP seat costs the VIP price of the event when that is set and
  not 0, else twice the base price; a premium seat the premium price when set and not 0,
  else one and a half times the base price; any other seat the base price. A booking
  that succeeds returns the sum of these prices over the rows of \<^verbatim>\<open>seats\<close> with a
  requested id, every row it adds to \<^verbatim>\<open>booking_seats\<close> carries the price of its seat,
  and there is such a row for each of these seats when the values of \<^verbatim>\<open>uuidv4()\<close> are
  distinct and new.
\<close>

theorem booking_prices:
  "seat_price ev x =
     (if s_tier x = ''vip''
      then (case e_vip_price ev of
              None \<Rightarrow> e_base_price ev * 2
            | Some p \<Rightarrow> if p = 0 then e_base_price ev * 2 else p)
      else if s_tier x = ''premium''
      then (case e_premium_price ev of
              None \<Rightarrow> e_base_price ev * (3 / 2)
            | Some p \<Rightarrow> if p = 0 then e_base_price ev * (3 / 2) else p)
      else e_base_price ev) \<and>
   (fst (create_booking now uuid e ids s em nm ph d) = Inr (bid, amount, n) \<longrightarrow>
      (\<exists>ev. find (\<lambda>ev. e_id ev = e) (events d) = Some ev \<and>
         amount = sum_list (map (seat_price ev) (filter (\<lambda>x. s_id x \<in> set ids) (seats d))) \<and>
         n = length (filter (\<lambda>x. s_id x \<in> set ids) (seats d)) \<and>
         (\<forall>r \<in> set (booking_seats (snd (create_booking now uuid e ids s em nm ph d))).
            r \<in> set (booking_seats d) \<or>
            bs_booking_id r = bid \<and>
            (\<exists>x \<in> set (seats d). s_id x \<in> set ids \<and> bs_seat_id r = s_id x \<and>
               bs_price r = seat_price ev x)) \<and>
         (distinct (map uuid [1 ..< Suc n]) \<and>
          list_all (\<lambda>j. uuid j \<notin> set (map bs_id (booking_seats d))) [1 ..< Suc n] \<longrightarrow>
            (\<forall>x \<in> set (seats d). s_id x \<in> set ids \<longrightarrow>
               (\<exists>r \<in> set (booking_seats (snd (create_booking now uuid e ids s em nm ph d))).
                  bs_booking_id r = bid \<and> bs_seat_id r = s_id x \<and>
                  bs_price r = seat_price ev x)))))"
proof (intro conjI impI)
  show "seat_price ev x =
     (if s_tier x = ''vip''
      then (case e_vip_price ev of
              None \<Rightarrow> e_base_price ev * 2
            | Some p \<Rightarrow> if p = 0 then e_base_price ev * 2 else p)
      else if s_tier x = ''premium''
      then (case e_premium_price ev of
              None \<Rightarrow> e_base_price ev * (3 / 2)
            | Some p \<Rightarrow> if p = 0 then e_base_price ev * (3 / 2) else p)
      else e_base_price ev)"
    by (simp add: seat_price_def js_or_def Let_def split: option.splits)
next
  let ?found = "filter (\<lambda>x. s_id x \<in> set ids) (seats d)"
  let ?res = "create_booking now uuid e ids s em nm ph d"
  assume ok: "fst ?res = Inr (bid, amount, n)"
  with create_booking_cases [of now uuid e ids s em nm ph d] obtain ev where
    ev: "find (\<lambda>ev. e_id ev = e) (events d) = Some ev" and
    res: "?res =
        (Inr (uuid 0, sum_list (map (seat_price ev) ?found), length ?found),
         delete_session_locks e s
           (d\<lparr>bookings := insert_row b_id
                 \<lparr>b_id = uuid 0, b_event_id = e, b_user_email = em, b_user_name = nm,
                  b_user_phone = (if ph = Some [] then None else ph),
                  b_total_amount = sum_list (map (seat_price ev) ?found),
                  b_status = ''pending'', b_qr_code = None\<rparr> (bookings d),
              booking_seats := insert_booking_seats uuid 1 (uuid 0)
                 (map (\<lambda>x. (s_id x, seat_price ev x)) ?found) (booking_seats d)\<rparr>))"
    by auto
  from ok res have g: "bid = uuid 0" "amount = sum_list (map (seat_price ev) ?found)"
    "n = length ?found" by simp_all
  from res have bs: "booking_seats (snd ?res) =
      insert_booking_seats uuid 1 (uuid 0) (map (\<lambda>x. (s_id x, seat_price ev x)) ?found)
        (booking_seats d)"
    by (simp add: delete_session_locks_def)
  have rows: "\<forall>r \<in> set (booking_seats (snd ?res)).
            r \<in> set (booking_seats d) \<or>
            bs_booking_id r = bid \<and>
            (\<exists>x \<in> set (seats d). s_id x \<in> set ids \<and> bs_seat_id r = s_id x \<and>
               bs_price r = seat_price ev x)"
  proof
    fix r assume "r \<in> set (booking_seats (snd ?res))"
    then have "r \<in> set (booking_seats d) \<or>
       (bs_booking_id r = uuid 0 \<and>
        (bs_seat_id r, bs_price r) \<in> set (map (\<lambda>x. (s_id x, seat_price ev x)) ?found))"
      unfolding bs by (rule insert_booking_seats_rows)
    then show "r \<in> set (booking_seats d) \<or>
            bs_booking_id r = bid \<and>
            (\<exists>x \<in> set (seats d). s_id x \<in> set ids \<and> bs_seat_id r = s_id x \<and>
               bs_price r = seat_price ev x)"
      unfolding g(1) by auto
  qed
  have all: "\<forall>x \<in> set (seats d). s_id x \<in> set ids \<longrightarrow>
               (\<exists>r \<in> set (booking_seats (snd ?res)).
                  bs_booking_id r = bid \<and> bs_seat_id r = s_id x \<and> bs_price r = seat_price ev x)"
    if fresh: "distinct (map uuid [1 ..< Suc n]) \<and>
          list_all (\<lambda>j. uuid j \<notin> set (map bs_id (booking_seats d))) [1 ..< Suc n]"
  proof (intro ballI impI)
    fix x assume x: "x \<in> set (seats d)" "s_id x \<in> set ids"
    let ?sp = "map (\<lambda>x. (s_id x, seat_price ev x)) ?found"
    have len: "1 + length ?sp = Suc n" using g(3) by simp
    from x have "(s_id x, seat_price ev x) \<in> set ?sp" by auto
    moreover from fresh have "inj_on uuid {1 ..< 1 + length ?sp}"
      unfolding len by (simp add: distinct_map del: upt_Suc)
    moreover from fresh have "uuid ` {1 ..< 1 + length ?sp} \<inter> bs_id ` set (booking_seats d) = {}"
      unfolding len by (auto simp: list_all_iff simp del: upt_Suc)
    ultimately have "\<exists>r \<in> set (insert_booking_seats uuid 1 (uuid 0) ?sp (booking_seats d)).
           bs_booking_id r = uuid 0 \<and> bs_seat_id r = s_id x \<and> bs_price r = seat_price ev x"
      by (rule insert_booking_seats_inserts)
    then show "\<exists>r \<in> set (booking_seats (snd ?res)).
                  bs_booking_id r = bid \<and> bs_seat_id r = s_id x \<and> bs_price r = seat_price ev x"
      unfolding bs g(1) .
  qed
  from ev g rows all
  show "\<exists>ev. find (\<lambda>ev. e_id ev = e) (events d) = Some ev \<and>
         amount = sum_list (map (seat_price ev) ?found) \<and>
         n = length ?found \<and>
         (\<forall>r \<in> set (booking_seats (snd ?res)).
            r \<in> set (booking_seats d) \<or>
            bs_booking_id r = bid \<and>
            (\<exists>x \<in> set (seats d). s_id x \<in> set ids \<and> bs_seat_id r = s_id x \<and>
               bs_price r = seat_price ev x)) \<and>
         (distinct (map uuid [1 ..< Suc n]) \<and>
          list_all (\<lambda>j. uuid j \<notin> set (map bs_id (booking_seats d))) [1 ..< Suc n] \<longrightarrow>
            (\<forall>x \<in> set (seats d). s_id x \<in> set ids \<longrightarrow>
               (\<exists>r \<in> set (booking_seats (snd ?res)).
                  bs_booking_id r = bid \<and> bs_seat_id r = s_id x \<and>
                  bs_price r = seat_price ev x)))"
    by blast
qed

theorem booking_prices_witness:
  "seat_price plain_event
     \<lparr>s_id = ''A1'', s_venue_id = ''V1'', s_row_label = ''A'', s_seat_number = 1, s_tier = ''vip''\<rparr>
     = 50 * 2 \<and>
   seat_price plain_event
     \<lparr>s_id = ''C1'', s_venue_id = ''V1'', s_row_label = ''C'', s_seat_number = 1,
      s_tier = ''premium''\<rparr> = 50 * (3 / 2) \<and>
   fst (create_booking (t0 + 60000) (uuids ''bp'') ''E2'' [''A1'', ''C1'', ''F1''] ''P''
          ''p@example.org'' ''P'' None store_plain) = Inr (''bp-0000'', 225, 3) \<and>
   distinct (map (uuids ''bp'') [1 ..< Suc 3]) \<and>
   list_all (\<lambda>j. uuids ''bp'' j \<notin> set (map bs_id (booking_seats store_plain))) [1 ..< Suc 3] \<and>
   (\<exists>r \<in> set (booking_seats (snd (create_booking (t0 + 60000) (uuids ''bp'') ''E2''
                                     [''A1'', ''C1'', ''F1''] ''P'' ''p@example.org'' ''P'' None
                                     store_plain))).
      bs_booking_id r = ''bp-0000'' \<and> bs_seat_id r = ''C1'' \<and> bs_price r = 75)"
proof -
  let ?A1 = "\<lparr>s_id = ''A1'', s_venue_id = ''V1'', s_row_label = ''A'', s_seat_number = 1,
              s_tier = ''vip''\<rparr>"
  let ?C1 = "\<lparr>s_id = ''C1'', s_venue_id = ''V1'', s_row_label = ''C'', s_seat_number = 1,
              s_tier = ''premium''\<rparr>"
  let ?res = "create_booking (t0 + 60000) (uuids ''bp'') ''E2'' [''A1'', ''C1'', ''F1''] ''P''
                ''p@example.org'' ''P'' None store_plain"
  note T = booking_prices [where d = store_plain and e = "''E2''" and now = "t0 + 60000"
      and uuid = "uuids ''bp''" and ids = "[''A1'', ''C1'', ''F1'']" and s = "''P''"
      and em = "''p@example.org''" and nm = "''P''" and ph = None and bid = "''bp-0000''"
      and amount = 225 and n = 3]
  from T [where ev = plain_event and x = ?A1]
  have a: "seat_price plain_event ?A1 = 50 * 2" by (simp add: plain_event_def)
  from T [where ev = plain_event and x = ?C1]
  have c: "seat_price plain_event ?C1 = 50 * (3 / 2)" by (simp add: plain_event_def)
  have ok: "fst ?res = Inr (''bp-0000'', 225, 3)" by code_simp
  have f1: "distinct (map (uuids ''bp'') [1 ..< Suc 3])" by code_simp
  have f2: "list_all (\<lambda>j. uuids ''bp'' j \<notin> set (map bs_id (booking_seats store_plain)))
              [1 ..< Suc 3]" by code_simp
  have ev: "find (\<lambda>ev. e_id ev = ''E2'') (events store_plain) = Some plain_event" by code_simp
  have x: "?C1 \<in> set (seats store_plain)" "s_id ?C1 \<in> set [''A1'', ''C1'', ''F1'']"
    by code_simp+
  from T [where ev = plain_event and x = ?C1] ok obtain ev' where
    ev': "find (\<lambda>ev. e_id ev = ''E2'') (events store_plain) = Some ev'" and
    all: "distinct (map (uuids ''bp'') [1 ..< Suc 3]) \<and>
          list_all (\<lambda>j. uuids ''bp'' j \<notin> set (map bs_id (booking_seats store_plain)))
            [1 ..< Suc 3] \<longrightarrow>
          (\<forall>x \<in> set (seats store_plain). s_id x \<in> set [''A1'', ''C1'', ''F1''] \<longrightarrow>
             (\<exists>r \<in> set (booking_seats (snd ?res)).
                bs_booking_id r = ''bp-0000'' \<and> bs_seat_id r = s_id x \<and>
                bs_price r = seat_price ev' x))"
    by blast
  from ev ev' have "ev' = plain_event" by simp
  with all f1 f2 x have "\<exists>r \<in> set (booking_seats (snd ?res)).
      bs_booking_id r = ''bp-0000'' \<and> bs_seat_id r = s_id ?C1 \<and>
      bs_price r = seat_price plain_event ?C1" by blast
  with c have "\<exists>r \<in> set (booking_seats (snd ?res)).
      bs_booking_id r = ''bp-0000'' \<and> bs_seat_id r = ''C1'' \<and> bs_price r = 75" by simp
  with a c ok f1 f2 show ?thesis by blast
qed

section \<open>Claims on the payment handler\<close>

lemma find_map_key:
  assumes "find (\<lambda>x. key x = k) xs = Some y" and "\<And>x. key (f x) = key x"
  shows "find (\<lambda>x. key x = k) (map f xs) = Some (f y)"
  using assms(1) by (induction xs) (auto simp: assms(2) split: if_splits)

text \<open>The ways the payment handler can end on a booking that exists.\<close>

lemma process_payment_confirmed:
  assumes "b \<noteq> []" "m \<noteq> []" "find (\<lambda>bk. b_id bk = b) (bookings d) = Some bk"
    and "b_status bk = ''confirmed''"
  shows "process_payment now r qr uuid b m d = (Inl AlreadyConfirmed, d)"
  using assms by (simp add: process_payment_def)

lemma process_payment_declined:
  assumes "b \<noteq> []" "m \<noteq> []" "find (\<lambda>bk. b_id bk = b) (bookings d) = Some bk"
    and "b_status bk \<noteq> ''confirmed''" "r < 1 / 10"
  shows "process_payment now r qr uuid b m d = (Inl Declined, d)"
  using assms by (simp add: process_payment_def)

lemma process_payment_settled:
  assumes "b \<noteq> []" "m \<noteq> []" "find (\<lambda>bk. b_id bk = b) (bookings d) = Some bk"
    and "b_status bk \<noteq> ''confirmed''" "\<not> r < 1 / 10"
  shows "process_payment now r (Some q) uuid b m d =
     (Inr (uuid 0, ''TXN'' @ toString36 now, q),
      d\<lparr>payments := insert_row p_id
           \<lparr>p_id = uuid 0, p_booking_id = b, p_amount = b_total_amount bk, p_method = m,
            p_status = ''completed'', p_transaction_id = Some (''TXN'' @ toString36 now)\<rparr>
           (payments d),
        bookings := map (\<lambda>x. if b_id x = b
                               then x\<lparr>b_status := ''confirmed'', b_qr_code := Some q\<rparr>
                               else x) (bookings d)\<rparr>)"
  using assms by (simp add: process_payment_def Let_def)

lemma process_payment_success:
  assumes "fst (process_payment now r qr uuid b m d) = Inr g"
  shows "\<exists>bk q. b \<noteq> [] \<and> m \<noteq> [] \<and> find (\<lambda>bk. b_id bk = b) (bookings d) = Some bk \<and>
           b_status bk \<noteq> ''confirmed'' \<and> \<not> r < 1 / 10 \<and> qr = Some q"
  using assms
  by (auto simp: process_payment_def Let_def split: if_splits option.splits)

lemma confirmed_after_settlement:
  assumes "find (\<lambda>bk. b_id bk = b) (bookings d) = Some bk"
  shows "find (\<lambda>bk. b_id bk = b)
           (map (\<lambda>x. if b_id x = b then x\<lparr>b_status := ''confirmed'', b_qr_code := Some q\<rparr> else x)
              (bookings d)) =
         Some (bk\<lparr>b_status := ''confirmed'', b_qr_code := Some q\<rparr>)"
proof -
  from assms have "b_id bk = b" by (auto dest: find_Some_iff [THEN iffD1])
  moreover have "find (\<lambda>x. b_id x = b)
      (map (\<lambda>x. if b_id x = b then x\<lparr>b_status := ''confirmed'', b_qr_code := Some q\<rparr> else x)
         (bookings d)) =
      Some (if b_id bk = b then bk\<lparr>b_status := ''confirmed'', b_qr_code := Some q\<rparr> else bk)"
    using assms by (rule find_map_key) simp
  ultimately show ?thesis by simp
qed

text \<open>
  Claim C8: a payment for a booking that is already confirmed is answered with 400 and
  changes nothing; so after a payment that succeeded every further payment for the
  same booking is answered with 400 and leaves the store, its payments and the booking
  included, as the first payment left it.
\<close>

theorem no_double_payment:
  "(b \<noteq> [] \<and> m \<noteq> [] \<and> find (\<lambda>bk. b_id bk = b) (bookings d) = Some bk \<and>
    b_status bk = ''confirmed'' \<longrightarrow>
      process_payment now r qr uuid b m d = (Inl AlreadyConfirmed, d) \<and>
      http_status AlreadyConfirmed = 400) \<and>
   (fst (process_payment now r qr uuid b m d) = Inr g \<longrightarrow>
      snd (process_payment now' r' qr' uuid' b m' (snd (process_payment now r qr uuid b m d))) =
        snd (process_payment now r qr uuid b m d) \<and>
      (m' \<noteq> [] \<longrightarrow>
         fst (process_payment now' r' qr' uuid' b m' (snd (process_payment now r qr uuid b m d))) =
           Inl AlreadyConfirmed))"
proof (rule conjI; rule impI)
  assume "b \<noteq> [] \<and> m \<noteq> [] \<and> find (\<lambda>bk. b_id bk = b) (bookings d) = Some bk \<and>
    b_status bk = ''confirmed''"
  then show "process_payment now r qr uuid b m d = (Inl AlreadyConfirmed, d) \<and>
      http_status AlreadyConfirmed = 400"
    by (simp add: process_payment_confirmed)
next
  let ?d' = "snd (process_payment now r qr uuid b m d)"
  assume a: "fst (process_payment now r qr uuid b m d) = Inr g"
  with process_payment_success [of now r qr uuid b m d g] obtain bk q where
    ok: "b \<noteq> []" "m \<noteq> []" "find (\<lambda>bk. b_id bk = b) (bookings d) = Some bk"
      "b_status bk \<noteq> ''confirmed''" "\<not> r < 1 / 10" "qr = Some q" by blast
  from process_payment_settled [OF ok(1-5), of now q uuid] ok(6)
  have "bookings ?d' =
      map (\<lambda>x. if b_id x = b then x\<lparr>b_status := ''confirmed'', b_qr_code := Some q\<rparr> else x)
        (bookings d)" by simp
  with confirmed_after_settlement [OF ok(3), of q]
  have fc: "find (\<lambda>bk. b_id bk = b) (bookings ?d') =
      Some (bk\<lparr>b_status := ''confirmed'', b_qr_code := Some q\<rparr>)" by simp
  have st: "b_status (bk\<lparr>b_status := ''confirmed'', b_qr_code := Some q\<rparr>) = ''confirmed''"
    by simp
  have "process_payment now' r' qr' uuid' b m' ?d' = (Inl AlreadyConfirmed, ?d')"
    if "m' \<noteq> []"
    using ok(1) that fc st by (rule process_payment_confirmed)
  moreover have "snd (process_payment now' r' qr' uuid' b m' ?d') = ?d'" if "m' = []"
    using that by (simp add: process_payment_def)
  ultimately show "snd (process_payment now' r' qr' uuid' b m' ?d') = ?d' \<and>
      (m' \<noteq> [] \<longrightarrow> fst (process_payment now' r' qr' uuid' b m' ?d') = Inl AlreadyConfirmed)"
    by (cases "m' = []") simp_all
qed

theorem no_double_payment_witness:
  "find (\<lambda>bk. b_id bk = ''bw-0000'') (bookings store_sold) =
     Some \<lparr>b_id = ''bw-0000'', b_event_id = ''E1'', b_user_email = ''w@example.org'',
           b_user_name = ''W'', b_user_phone = None, b_total_amount = 125,
           b_status = ''confirmed'', b_qr_code = Some ''qr''\<rparr> \<and>
   process_payment (t0 + 200000) (1 / 2) (Some ''qr2'') (uuids ''pv'') ''bw-0000'' ''card'' store_sold
     = (Inl AlreadyConfirmed, store_sold) \<and>
   fst (process_payment (t0 + 200000) (1 / 2) (Some ''qr'') (uuids ''px'') ''bx-0000'' ''card''
          store_pending) = Inr (''px-0000'', ''TXNMVZ7MSZK'', ''qr'') \<and>
   process_payment (t0 + 300000) (1 / 2) (Some ''qr2'') (uuids ''py'') ''bx-0000'' ''paypal''
     (snd (process_payment (t0 + 200000) (1 / 2) (Some ''qr'') (uuids ''px'') ''bx-0000'' ''card''
             store_pending)) =
     (Inl AlreadyConfirmed,
      snd (process_payment (t0 + 200000) (1 / 2) (Some ''qr'') (uuids ''px'') ''bx-0000'' ''card''
             store_pending)) \<and>
   map p_status (payments (snd (process_payment (t0 + 200000) (1 / 2) (Some ''qr'') (uuids ''px'')
                                  ''bx-0000'' ''card'' store_pending))) = [''completed'']"
proof -
  let ?bk = "\<lparr>b_id = ''bw-0000'', b_event_id = ''E1'', b_user_email = ''w@example.org'',
           b_user_name = ''W'', b_user_phone = None, b_total_amount = 125,
           b_status = ''confirmed'', b_qr_code = Some ''qr''\<rparr>"
  have f: "find (\<lambda>bk. b_id bk = ''bw-0000'') (bookings store_sold) = Some ?bk" by code_simp
  have c: "b_status ?bk = ''confirmed''" by simp
  have n: "''bw-0000'' \<noteq> []" "''card'' \<noteq> []" "''paypal'' \<noteq> []" by simp_all
  from no_double_payment [where d = store_sold and b = "''bw-0000''" and m = "''card''"
      and bk = ?bk and now = "t0 + 200000" and r = "1 / 2" and qr = "Some ''qr2''"
      and uuid = "uuids ''pv''"] f c n
  have 1: "process_payment (t0 + 200000) (1 / 2) (Some ''qr2'') (uuids ''pv'') ''bw-0000'' ''card''
      store_sold = (Inl AlreadyConfirmed, store_sold)" by blast
  have ok: "fst (process_payment (t0 + 200000) (1 / 2) (Some ''qr'') (uuids ''px'') ''bx-0000''
      ''card'' store_pending) = Inr (''px-0000'', ''TXNMVZ7MSZK'', ''qr'')" by code_simp
  from no_double_payment [where d = store_pending and b = "''bx-0000''" and m = "''card''"
      and now = "t0 + 200000" and r = "1 / 2" and qr = "Some ''qr''" and uuid = "uuids ''px''"
      and g = "(''px-0000'', ''TXNMVZ7MSZK'', ''qr'')" and m' = "''paypal''"
      and now' = "t0 + 300000" and r' = "1 / 2" and qr' = "Some ''qr2''"
      and uuid' = "uuids ''py''"] ok n
  have 2: "process_payment (t0 + 300000) (1 / 2) (Some ''qr2'') (uuids ''py'') ''bx-0000'' ''paypal''
     (snd (process_payment (t0 + 200000) (1 / 2) (Some ''qr'') (uuids ''px'') ''bx-0000'' ''card''
             store_pending)) =
     (Inl AlreadyConfirmed,
      snd (process_payment (t0 + 200000) (1 / 2) (Some ''qr'') (uuids ''px'') ''bx-0000'' ''card''
             store_pending))" by (metis prod.collapse)
  have p: "map p_status (payments (snd (process_payment (t0 + 200000) (1 / 2) (Some ''qr'')
      (uuids ''px'') ''bx-0000'' ''card'' store_pending))) = [''completed'']" by code_simp
  from f 1 ok 2 p show ?thesis by blast
qed

text \<open>
  Claim C9: when the payment is declined (the draw of \<^verbatim>\<open>Math.random()\<close> is below 0.1)
  the handler answers 402 and the store is untouched: the booking is as before, no
  payment is recorded, no row of the booking is removed and no lock is changed. A later
  payment for the same booking whose draw is not below 0.1 and whose QR code is
  produced succeeds and confirms the booking.
\<close>

theorem declined_payment_can_be_retried:
  assumes "b \<noteq> []" "m \<noteq> []" "find (\<lambda>bk. b_id bk = b) (bookings d) = Some bk"
    and "b_status bk = ''pending''" "r < 1 / 10"
  shows "process_payment now r qr uuid b m d = (Inl Declined, d) \<and>
     http_status Declined = 402 \<and>
     find (\<lambda>bk. b_id bk = b) (bookings (snd (process_payment now r qr uuid b m d))) = Some bk \<and>
     payments (snd (process_payment now r qr uuid b m d)) = payments d \<and>
     booking_seats (snd (process_payment now r qr uuid b m d)) = booking_seats d \<and>
     seat_locks (snd (process_payment now r qr uuid b m d)) = seat_locks d \<and>
     (m' \<noteq> [] \<and> \<not> r' < 1 / 10 \<longrightarrow>
        fst (process_payment now' r' (Some q) uuid' b m'
               (snd (process_payment now r qr uuid b m d))) =
          Inr (uuid' 0, ''TXN'' @ toString36 now', q) \<and>
        map b_status (filter (\<lambda>bk. b_id bk = b)
          (bookings (snd (process_payment now' r' (Some q) uuid' b m'
                            (snd (process_payment now r qr uuid b m d)))))) =
          map (\<lambda>bk. ''confirmed'') (filter (\<lambda>bk. b_id bk = b) (bookings d)))"
proof -
  from assms(4) have nc: "b_status bk \<noteq> ''confirmed''" by simp
  have dec: "process_payment now r qr uuid b m d = (Inl Declined, d)"
    using assms(1-3) nc assms(5) by (rule process_payment_declined)
  have retry: "fst (process_payment now' r' (Some q) uuid' b m' d) =
          Inr (uuid' 0, ''TXN'' @ toString36 now', q) \<and>
        map b_status (filter (\<lambda>bk. b_id bk = b)
          (bookings (snd (process_payment now' r' (Some q) uuid' b m' d)))) =
          map (\<lambda>bk. ''confirmed'') (filter (\<lambda>bk. b_id bk = b) (bookings d))"
    if "m' \<noteq> []" "\<not> r' < 1 / 10"
  proof -
    have "map b_status (filter (\<lambda>bk. b_id bk = b)
            (map (\<lambda>x. if b_id x = b then x\<lparr>b_status := ''confirmed'', b_qr_code := Some q\<rparr>
                       else x) xs)) =
          map (\<lambda>bk. ''confirmed'') (filter (\<lambda>bk. b_id bk = b) xs)" for xs
      by (induction xs) simp_all
    then show ?thesis
      by (simp add: process_payment_settled [OF assms(1) that(1) assms(3) nc that(2)])
  qed
  from dec assms(3) retry show ?thesis by simp
qed

theorem declined_payment_can_be_retried_witness:
  "find (\<lambda>bk. b_id bk = ''bx-0000'') (bookings store_pending) =
     Some \<lparr>b_id = ''bx-0000'', b_event_id = ''E1'', b_user_email = ''x@example.org'',
           b_user_name = ''X'', b_user_phone = None, b_total_amount = 200,
           b_status = ''pending'', b_qr_code = None\<rparr> \<and>
   process_payment (t0 + 200000) (1 / 20) (Some ''qr'') (uuids ''px'') ''bx-0000'' ''card''
     store_pending = (Inl Declined, store_pending) \<and>
   fst (process_payment (t0 + 300000) (1 / 2) (Some ''qr'') (uuids ''py'') ''bx-0000'' ''card''
          (snd (process_payment (t0 + 200000) (1 / 20) (Some ''qr'') (uuids ''px'') ''bx-0000''
                  ''card'' store_pending))) =
     Inr (uuids ''py'' 0, ''TXN'' @ toString36 (t0 + 300000), ''qr'') \<and>
   ''TXN'' @ toString36 (t0 + 300000) = ''TXNMVZ7OY5C''"
proof -
  let ?bk = "\<lparr>b_id = ''bx-0000'', b_event_id = ''E1'', b_user_email = ''x@example.org'',
           b_user_name = ''X'', b_user_phone = None, b_total_amount = 200,
           b_status = ''pending'', b_qr_code = None\<rparr>"
  have f: "find (\<lambda>bk. b_id bk = ''bx-0000'') (bookings store_pending) = Some ?bk" by code_simp
  have h: "''bx-0000'' \<noteq> []" "''card'' \<noteq> []" "b_status ?bk = ''pending''"
    "(1 / 20 :: real) < 1 / 10" "\<not> (1 / 2 :: real) < 1 / 10" by simp_all
  have t: "''TXN'' @ toString36 (t0 + 300000) = ''TXNMVZ7OY5C''" by code_simp
  note T = declined_payment_can_be_retried [OF h(1) h(2) f h(3) h(4), of "t0 + 200000"
      "Some ''qr''" "uuids ''px''" "''card''" "1 / 2" "t0 + 300000" "''qr''" "uuids ''py''"]
  from T have 1: "process_payment (t0 + 200000) (1 / 20) (Some ''qr'') (uuids ''px'') ''bx-0000''
      ''card'' store_pending = (Inl Declined, store_pending)" by blast
  from T h(2) h(5) have 2: "fst (process_payment (t0 + 300000) (1 / 2) (Some ''qr'') (uuids ''py'')
      ''bx-0000'' ''card''
          (snd (process_payment (t0 + 200000) (1 / 20) (Some ''qr'') (uuids ''px'') ''bx-0000''
                  ''card'' store_pending))) =
     Inr (uuids ''py'' 0, ''TXN'' @ toString36 (t0 + 300000), ''qr'')" by blast
  from f 1 2 t show ?thesis by blast
qed

end
